theory Spec2Isabelle
  imports Main "HOL-Library.List_Lexorder" "HOL-Library.Char_ord"
begin

section \<open>Promises\<close>

text \<open>
  The script \<^verbatim>\<open>scripts/deploy.js\<close> is written against JavaScript promises. A promise
  is pending, fulfilled or rejected with a reason; the fulfilment value is never read by
  the script, so it is not kept. Errors are identified by their message.

  \<^verbatim>\<open>resolve\<close> and \<^verbatim>\<open>reject\<close> only act on a pending promise; on a settled one they
  are no-ops.
\<close>

type_synonym err = string

datatype promise = Pending | Fulfilled | Rejected err

fun resolve :: "promise \<Rightarrow> promise" where
  "resolve Pending = Fulfilled"
| "resolve p = p"

fun reject :: "err \<Rightarrow> promise \<Rightarrow> promise" where
  "reject e Pending = Rejected e"
| "reject e p = p"

definition settled :: "promise \<Rightarrow> bool" where
  "settled p = (p \<noteq> Pending)"

fun first_rejection :: "promise list \<Rightarrow> err option" where
  "first_rejection [] = None"
| "first_rejection (Rejected e # ps) = Some e"
| "first_rejection (p # ps) = first_rejection ps"

text \<open>
  \<^verbatim>\<open>Promise.all(promises)\<close>: once settled it keeps its state; while pending it rejects
  with the reason of an element that has rejected, and fulfils when every element has
  fulfilled. The function is applied after every event, so at most one element has
  newly rejected, except right after the promises are created, where the reactions of
  elements rejected on creation are queued in index order and the first one wins.
\<close>

definition promise_all :: "promise list \<Rightarrow> promise \<Rightarrow> promise" where
  "promise_all ps agg =
     (if agg \<noteq> Pending then agg
      else (case first_rejection ps of
              Some e \<Rightarrow> Rejected e
            | None \<Rightarrow> (if list_all (\<lambda>p. p = Fulfilled) ps then Fulfilled else Pending)))"

section \<open>WebDAVHelper.UploadFiles\<close>

text \<open>
  The outside world of one call: what \<^verbatim>\<open>fs.readFileSync\<close> does for a local path
  (\<open>Inl\<close>: it throws) and which \<^verbatim>\<open>err\<close> the WebDAV client passes to the callback of
  \<^verbatim>\<open>wfs.writeFile\<close> for a remote path (\<open>None\<close>: success).
\<close>

record io =
  readFileSync :: "string \<Rightarrow> err + string"
  writeFile :: "string \<Rightarrow> err option"

definition includes_dot :: "string \<Rightarrow> bool" where
  "includes_dot o' = (CHR ''.'' \<in> set o')"

definition local_path :: "string \<Rightarrow> string \<Rightarrow> string" where
  "local_path src file = src @ [CHR 0x5C] @ file"

definition remote_path :: "string \<Rightarrow> string \<Rightarrow> string" where
  "remote_path dest file = dest @ ''/'' @ file"

text \<open>
  One element of \<^verbatim>\<open>promises\<close>: the file name, the promise made by \<^verbatim>\<open>uploader\<close>, and
  whether \<^verbatim>\<open>wfs.writeFile\<close> was issued for it.
\<close>

record upload =
  u_file :: string
  u_promise :: promise
  u_issued :: bool

text \<open>
  \<^verbatim>\<open>uploader(file)\<close>: the executor reads the file; a throw inside an executor rejects
  the new promise, and \<^verbatim>\<open>wfs.writeFile\<close> is then never called.
\<close>

definition uploader :: "'a io_scheme \<Rightarrow> string \<Rightarrow> string \<Rightarrow> upload" where
  "uploader w src file =
     (case readFileSync w (local_path src file) of
        Inl e \<Rightarrow> \<lparr>u_file = file, u_promise = reject e Pending, u_issued = False\<rparr>
      | Inr contents \<Rightarrow> \<lparr>u_file = file, u_promise = Pending, u_issued = True\<rparr>)"

text \<open>The callback \<^verbatim>\<open>(err) => { if (err) reject(err); resolve(); }\<close>.\<close>

definition write_callback :: "err option \<Rightarrow> promise \<Rightarrow> promise" where
  "write_callback err p = resolve (case err of Some e \<Rightarrow> reject e p | None \<Rightarrow> p)"

text \<open>
  The state of one call of \<^verbatim>\<open>UploadFiles\<close>: \<^verbatim>\<open>promises\<close>, \<^verbatim>\<open>Promise.all(promises)\<close>
  and the promise the call returns.
\<close>

record batch =
  b_dest :: string
  b_uploads :: "upload list"
  b_all :: promise
  b_outer :: promise

text \<open>
  \<^verbatim>\<open>Promise.all(promises).finally(resolve).catch(reject)\<close>: when the aggregate settles,
  \<^verbatim>\<open>finally\<close> calls \<^verbatim>\<open>resolve()\<close> of the returned promise; the promise made by
  \<^verbatim>\<open>finally\<close> then settles as the aggregate did, and if that is a rejection
  \<^verbatim>\<open>catch\<close> calls \<^verbatim>\<open>reject(reason)\<close> of the returned promise.
\<close>

definition finally_catch :: "promise \<Rightarrow> promise \<Rightarrow> promise" where
  "finally_catch agg outer =
     (case agg of
        Pending \<Rightarrow> outer
      | Fulfilled \<Rightarrow> resolve outer
      | Rejected e \<Rightarrow> reject e (resolve outer))"

definition react :: "batch \<Rightarrow> batch" where
  "react b =
     (let agg = promise_all (map u_promise (b_uploads b)) (b_all b)
      in b\<lparr>b_all := agg,
           b_outer := (if b_all b = Pending then finally_catch agg (b_outer b) else b_outer b)\<rparr>)"

definition UploadFiles :: "'a io_scheme \<Rightarrow> string \<Rightarrow> string \<Rightarrow> string list \<Rightarrow> batch" where
  "UploadFiles w src dest files =
     react \<lparr>b_dest = dest,
            b_uploads = map (uploader w src) (filter includes_dot files),
            b_all = Pending,
            b_outer = Pending\<rparr>"

text \<open>
  The WebDAV client completes the write of element \<open>i\<close>: the callback runs with the
  \<^verbatim>\<open>err\<close> the world has for that remote path, then the promise reactions run. An index
  that names no issued, still pending write is no event of this call.
\<close>

definition in_flight :: "batch \<Rightarrow> nat \<Rightarrow> bool" where
  "in_flight b i =
     (i < length (b_uploads b) \<and> u_issued (b_uploads b ! i)
      \<and> u_promise (b_uploads b ! i) = Pending)"

definition complete :: "'a io_scheme \<Rightarrow> nat \<Rightarrow> batch \<Rightarrow> batch" where
  "complete w i b =
     (if in_flight b i then
        (let u = b_uploads b ! i;
             u' = u\<lparr>u_promise := write_callback
                      (writeFile w (remote_path (b_dest b) (u_file u))) (u_promise u)\<rparr>
         in react (b\<lparr>b_uploads := (b_uploads b)[i := u']\<rparr>))
      else b)"

definition completes :: "'a io_scheme \<Rightarrow> nat list \<Rightarrow> batch \<Rightarrow> batch" where
  "completes w cs b = foldl (\<lambda>b i. complete w i b) b cs"

section \<open>The deployment identifier\<close>

text \<open>
  \<^verbatim>\<open>new Date().toISOString()\<close> is the language's own function. It is written out here
  from the ECMAScript definition of time values (milliseconds since the epoch, UTC):
  \<^verbatim>\<open>Day\<close>, \<^verbatim>\<open>DayFromYear\<close>, \<^verbatim>\<open>YearFromTime\<close>, \<^verbatim>\<open>MonthFromTime\<close>, \<^verbatim>\<open>DateFromTime\<close>
  and the time-of-day fields.
\<close>

definition msPerDay :: int where
  "msPerDay = 86400000"

definition Day :: "int \<Rightarrow> int" where
  "Day t = t div msPerDay"

definition DaysInYear :: "int \<Rightarrow> int" where
  "DaysInYear y =
     (if y mod 4 \<noteq> 0 then 365
      else if y mod 100 \<noteq> 0 then 366
      else if y mod 400 \<noteq> 0 then 365
      else 366)"

definition DayFromYear :: "int \<Rightarrow> int" where
  "DayFromYear y =
     365 * (y - 1970) + (y - 1969) div 4 - (y - 1901) div 100 + (y - 1601) div 400"

lemma div_succ:
  fixes a n :: int
  assumes "0 < n"
  shows "(a + 1) div n = a div n + (if (a + 1) mod n = 0 then 1 else 0)"
proof -
  have r: "0 \<le> a mod n" "a mod n < n" using assms by simp_all
  show ?thesis
  proof (cases "a mod n + 1 < n")
    case True
    have eq: "a + 1 = n * (a div n) + (a mod n + 1)" by simp
    have "(a + 1) div n = a div n"
      by (rule int_div_pos_eq [OF eq]) (use r True in simp_all)
    moreover have "(a + 1) mod n = a mod n + 1"
      by (rule int_mod_pos_eq [OF eq]) (use r True in simp_all)
    ultimately show ?thesis using r by simp
  next
    case False
    then have rn: "a mod n = n - 1" using r by simp
    have "a + 1 = n * (a div n) + a mod n + 1" by simp
    then have eq: "a + 1 = n * (a div n + 1) + 0"
      unfolding rn by (simp add: algebra_simps)
    have "(a + 1) div n = a div n + 1"
      by (rule int_div_pos_eq [OF eq]) (use assms in simp_all)
    moreover have "(a + 1) mod n = 0"
      by (rule int_mod_pos_eq [OF eq]) (use assms in simp_all)
    ultimately show ?thesis by simp
  qed
qed

lemma mod_shift: "(y - n * k) mod n = (y::int) mod n"
  by (metis mod_mult_self2 diff_conv_add_uminus mult_minus_right)

lemma mod_4_shift: "(y - 1968) mod 4 = (y::int) mod 4" using mod_shift [of y 4 492] by simp
lemma mod_100_shift: "(y - 1900) mod 100 = (y::int) mod 100" using mod_shift [of y 100 19] by simp
lemma mod_400_shift: "(y - 1600) mod 400 = (y::int) mod 400" using mod_shift [of y 400 4] by simp
lemma mod_400_100: "(y::int) mod 400 = 0 \<Longrightarrow> y mod 100 = 0"
  using mod_mod_cancel [of 100 400 y] by simp
lemma mod_100_4: "(y::int) mod 100 = 0 \<Longrightarrow> y mod 4 = 0"
  using mod_mod_cancel [of 4 100 y] by simp

lemma DayFromYear_step: "DayFromYear (y + 1) = DayFromYear y + DaysInYear y"
proof -
  have a: "(y + 1 - 1969) div 4 = (y - 1969) div 4 + (if y mod 4 = 0 then 1 else 0)"
    using div_succ [of 4 "y - 1969"] mod_4_shift [of y] by (simp add: algebra_simps)
  have b: "(y + 1 - 1901) div 100 = (y - 1901) div 100 + (if y mod 100 = 0 then 1 else 0)"
    using div_succ [of 100 "y - 1901"] mod_100_shift [of y] by (simp add: algebra_simps)
  have c: "(y + 1 - 1601) div 400 = (y - 1601) div 400 + (if y mod 400 = 0 then 1 else 0)"
    using div_succ [of 400 "y - 1601"] mod_400_shift [of y] by (simp add: algebra_simps)
  show ?thesis
    unfolding DayFromYear_def DaysInYear_def a b c
    using mod_400_100 [of y] mod_100_4 [of y] by auto
qed

lemma DayFromYear_less: "DayFromYear (y - 1) < DayFromYear y"
  using DayFromYear_step [of "y - 1"] by (simp add: DaysInYear_def split: if_splits)

text \<open>
  \<^verbatim>\<open>YearFromTime(t)\<close> is the largest \<open>y\<close> whose first day is not after the day of
  \<open>t\<close>. It is computed by searching down and then up from an estimate.
\<close>

function year_down :: "int \<Rightarrow> int \<Rightarrow> int" where
  "year_down d y = (if DayFromYear y \<le> d then y else year_down d (y - 1))"
  by pat_completeness auto
termination
proof (relation "measure (\<lambda>(d, y). nat (DayFromYear y - d))")
  fix d y :: int
  assume "\<not> DayFromYear y \<le> d"
  then show "((d, y - 1), (d, y)) \<in> measure (\<lambda>(d, y). nat (DayFromYear y - d))"
    using DayFromYear_less [of y] by simp
qed simp

function year_up :: "int \<Rightarrow> int \<Rightarrow> int" where
  "year_up d y = (if DayFromYear (y + 1) \<le> d then year_up d (y + 1) else y)"
  by pat_completeness auto
termination
proof (relation "measure (\<lambda>(d, y). nat (d - DayFromYear y))")
  fix d y :: int
  assume "DayFromYear (y + 1) \<le> d"
  moreover have "DayFromYear y < DayFromYear (y + 1)"
    using DayFromYear_less [of "y + 1"] by simp
  ultimately show "((d, y + 1), (d, y)) \<in> measure (\<lambda>(d, y). nat (d - DayFromYear y))"
    by simp
qed simp

declare year_down.simps [simp del] year_up.simps [simp del]

definition YearFromDay :: "int \<Rightarrow> int" where
  "YearFromDay d = year_up d (year_down d (1970 + d div 365))"

definition YearFromTime :: "int \<Rightarrow> int" where
  "YearFromTime t = YearFromDay (Day t)"

definition InLeapYear :: "int \<Rightarrow> int" where
  "InLeapYear t = (if DaysInYear (YearFromTime t) = 366 then 1 else 0)"

definition DayWithinYear :: "int \<Rightarrow> int" where
  "DayWithinYear t = Day t - DayFromYear (YearFromTime t)"

definition month_of :: "int \<Rightarrow> int \<Rightarrow> int" where
  "month_of l d =
     (if d < 31 then 0
      else if d < 59 + l then 1
      else if d < 90 + l then 2
      else if d < 120 + l then 3
      else if d < 151 + l then 4
      else if d < 181 + l then 5
      else if d < 212 + l then 6
      else if d < 243 + l then 7
      else if d < 273 + l then 8
      else if d < 304 + l then 9
      else if d < 334 + l then 10
      else 11)"

definition MonthFromTime :: "int \<Rightarrow> int" where
  "MonthFromTime t = month_of (InLeapYear t) (DayWithinYear t)"

definition date_of :: "int \<Rightarrow> int \<Rightarrow> int" where
  "date_of l d =
     (let m = month_of l d in
      if m = 0 then d + 1
      else if m = 1 then d - 30
      else if m = 2 then d - 58 - l
      else if m = 3 then d - 89 - l
      else if m = 4 then d - 119 - l
      else if m = 5 then d - 150 - l
      else if m = 6 then d - 180 - l
      else if m = 7 then d - 211 - l
      else if m = 8 then d - 242 - l
      else if m = 9 then d - 272 - l
      else if m = 10 then d - 303 - l
      else d - 333 - l)"

definition DateFromTime :: "int \<Rightarrow> int" where
  "DateFromTime t = date_of (InLeapYear t) (DayWithinYear t)"

definition HourFromTime :: "int \<Rightarrow> int" where
  "HourFromTime t = (t div 3600000) mod 24"

definition MinFromTime :: "int \<Rightarrow> int" where
  "MinFromTime t = (t div 60000) mod 60"

definition SecFromTime :: "int \<Rightarrow> int" where
  "SecFromTime t = (t div 1000) mod 60"

definition msFromTime :: "int \<Rightarrow> int" where
  "msFromTime t = t mod 1000"

text \<open>Decimal digits, zero-padded on the left to a fixed width.\<close>

definition digit :: "nat \<Rightarrow> char" where
  "digit n = char_of (48 + n mod 10)"

fun pad :: "nat \<Rightarrow> nat \<Rightarrow> string" where
  "pad 0 n = []"
| "pad (Suc k) n = pad k (n div 10) @ [digit n]"

text \<open>
  \<^verbatim>\<open>toISOString\<close>: \<^verbatim>\<open>YYYY-MM-DDTHH:mm:ss.sssZ\<close>; a year outside 0 to 9999 is written
  with a sign and six digits.
\<close>

definition iso_year :: "int \<Rightarrow> string" where
  "iso_year y =
     (if 0 \<le> y \<and> y \<le> 9999 then pad 4 (nat y)
      else if y < 0 then ''-'' @ pad 6 (nat (- y))
      else ''+'' @ pad 6 (nat y))"

definition toISOString :: "int \<Rightarrow> string" where
  "toISOString t =
     iso_year (YearFromTime t) @ ''-'' @ pad 2 (nat (MonthFromTime t + 1)) @ ''-''
     @ pad 2 (nat (DateFromTime t)) @ ''T''
     @ pad 2 (nat (HourFromTime t)) @ '':'' @ pad 2 (nat (MinFromTime t)) @ '':''
     @ pad 2 (nat (SecFromTime t)) @ ''.'' @ pad 3 (nat (msFromTime t)) @ ''Z''"

text \<open>
  The three \<^verbatim>\<open>replace\<close> calls of the script: every colon becomes an underscore,
  the first \<^verbatim>\<open>T\<close> is removed, and the first full stop that is followed by at least one
  character other than a line terminator is removed together with the characters up
  to the next line terminator.
\<close>

definition replace_all :: "char \<Rightarrow> string \<Rightarrow> string \<Rightarrow> string" where
  "replace_all c r s = concat (map (\<lambda>x. if x = c then r else [x]) s)"

fun replace_first :: "char \<Rightarrow> string \<Rightarrow> string \<Rightarrow> string" where
  "replace_first c r [] = []"
| "replace_first c r (x # xs) = (if x = c then r @ xs else x # replace_first c r xs)"

definition line_terminator :: "char \<Rightarrow> bool" where
  "line_terminator c = (c = CHR 0x0A \<or> c = CHR 0x0D)"

fun remove_dot_rest :: "string \<Rightarrow> string" where
  "remove_dot_rest [] = []"
| "remove_dot_rest [x] = [x]"
| "remove_dot_rest (x # y # ys) =
     (if x = CHR ''.'' \<and> \<not> line_terminator y
      then dropWhile (\<lambda>c. \<not> line_terminator c) ys
      else x # remove_dot_rest (y # ys))"

definition make_timestamp :: "int \<Rightarrow> string" where
  "make_timestamp t =
     remove_dot_rest (replace_first CHR ''T'' [] (replace_all CHR '':'' ''_'' (toISOString t)))"

section \<open>The script\<close>

subsection \<open>Configuration values\<close>

text \<open>
  \<^verbatim>\<open>require\<close> of a \<^verbatim>\<open>.json\<close> file gives a JSON value. Numbers are kept as integers;
  a number with a fraction or an exponent is outside the model.
\<close>

datatype json =
    JNull
  | JBool bool
  | JNum int
  | JStr string
  | JArr "json list"
  | JObj "(string \<times> json) list"

text \<open>
  Reading the property \<open>k\<close> (one of the three credential names) of a value: \<^verbatim>\<open>null\<close>
  throws a TypeError, an object gives the value of its last member of that name or
  \<^verbatim>\<open>undefined\<close> (\<open>None\<close>), any other value gives \<^verbatim>\<open>undefined\<close>.
\<close>

definition get_member :: "json \<Rightarrow> string \<Rightarrow> err + json option" where
  "get_member v k =
     (case v of
        JNull \<Rightarrow> Inl ''TypeError''
      | JObj ms \<Rightarrow> Inr (map_of (rev ms) k)
      | _ \<Rightarrow> Inr None)"

fun truthy :: "json option \<Rightarrow> bool" where
  "truthy None = False"
| "truthy (Some JNull) = False"
| "truthy (Some (JBool b)) = b"
| "truthy (Some (JNum n)) = (n \<noteq> 0)"
| "truthy (Some (JStr s)) = (s \<noteq> [])"
| "truthy (Some (JArr xs)) = True"
| "truthy (Some (JObj ms)) = True"

fun join :: "string \<Rightarrow> string list \<Rightarrow> string" where
  "join sep [] = []"
| "join sep [x] = x"
| "join sep (x # y # ys) = x @ sep @ join sep (y # ys)"

fun digits :: "nat \<Rightarrow> string" where
  "digits n = (if n < 10 then [digit n] else digits (n div 10) @ [digit n])"

declare digits.simps [simp del]

text \<open>A value inside a template literal.\<close>

fun to_string :: "json \<Rightarrow> string" where
  "to_string JNull = ''null''"
| "to_string (JBool b) = (if b then ''true'' else ''false'')"
| "to_string (JNum n) = (if n < 0 then ''-'' @ digits (nat (- n)) else digits (nat n))"
| "to_string (JStr s) = s"
| "to_string (JArr xs) = join '','' (map (\<lambda>x. if x = JNull then [] else to_string x) xs)"
| "to_string (JObj ms) = ''[object Object]''"

definition template :: "json option \<Rightarrow> string" where
  "template v = (case v of None \<Rightarrow> ''undefined'' | Some x \<Rightarrow> to_string x)"

text \<open>
  \<^verbatim>\<open>!config.WEBDAV_STOREHASH || !config.WEBDAV_USERNAME || !config.WEBDAV_PASSWORD\<close>,
  evaluated left to right.
\<close>

definition missing_credentials :: "json \<Rightarrow> err + bool" where
  "missing_credentials config =
     (case get_member config ''WEBDAV_STOREHASH'' of
        Inl ex \<Rightarrow> Inl ex
      | Inr h \<Rightarrow>
          (if \<not> truthy h then Inr True
           else (case get_member config ''WEBDAV_USERNAME'' of
                   Inl ex \<Rightarrow> Inl ex
                 | Inr u \<Rightarrow>
                     (if \<not> truthy u then Inr True
                      else (case get_member config ''WEBDAV_PASSWORD'' of
                              Inl ex \<Rightarrow> Inl ex
                            | Inr p \<Rightarrow> Inr (\<not> truthy p))))))"

definition STOREHASH :: "json \<Rightarrow> string" where
  "STOREHASH config =
     (case get_member config ''WEBDAV_STOREHASH'' of
        Inl ex \<Rightarrow> ''undefined''
      | Inr h \<Rightarrow> template h)"

text \<open>
  \<^verbatim>\<open>JSON.stringify(value, null, 2)\<close> of an object whose members are strings that need
  no escaping, as \<^verbatim>\<open>sampleFile\<close> is.
\<close>

definition quoted :: "string \<Rightarrow> string" where
  "quoted s = [CHR 0x22] @ s @ [CHR 0x22]"

definition JSON_stringify :: "(string \<times> string) list \<Rightarrow> string" where
  "JSON_stringify ms =
     (if ms = [] then ''{}''
      else ''{'' @ [CHR 0x0A]
           @ join ('','' @ [CHR 0x0A]) (map (\<lambda>(k, v). ''  '' @ quoted k @ '': '' @ quoted v) ms)
           @ [CHR 0x0A] @ ''}'')"

definition sampleFile :: "(string \<times> string) list" where
  "sampleFile = [(''WEBDAV_STOREHASH'', []), (''WEBDAV_USERNAME'', []), (''WEBDAV_PASSWORD'', [])]"

subsection \<open>The world and the effects\<close>

text \<open>
  What the script reads from outside: the command line, the directory of the script,
  what \<^verbatim>\<open>require\<close> gives for a path (\<open>Inl\<close>: it throws, the file is missing or is
  not JSON), the exception that \<^verbatim>\<open>fs.writeFileSync\<close> throws for a path and a text
  (\<open>None\<close>: the file is written), the message with which \<^verbatim>\<open>execa\<close> rejects (\<open>None\<close>:
  exit status zero), the clock, the \<^verbatim>\<open>err\<close> the WebDAV client gives to the callback of
  \<^verbatim>\<open>mkdir\<close>, and the result of \<^verbatim>\<open>fs.readdir\<close>. The build, \<^verbatim>\<open>mkdir\<close> and \<^verbatim>\<open>readdir\<close>
  are taken to complete; only the completions of the writes are scheduled (see
  \<open>deliver\<close> below). The six modules that the script requires at its start are taken
  to load.
\<close>

record world = io +
  argv :: "string list"
  dirname :: string
  require :: "string \<Rightarrow> err + json"
  writeFileSync :: "string \<Rightarrow> string \<Rightarrow> err option"
  execa :: "string \<Rightarrow> string list \<Rightarrow> err option"
  Date_now :: int
  mkdir :: "string \<Rightarrow> err option"
  readdir :: "string \<Rightarrow> err + string list"

text \<open>
  What the script does to the outside, in the order it does it. Colours
  (\<^verbatim>\<open>chalk\<close>) are left out of the console text. \<^verbatim>\<open>WriteFileSync p d r\<close> is the call
  of \<^verbatim>\<open>fs.writeFileSync\<close> for the path \<open>p\<close> and the text \<open>d\<close>, with how it ended: the
  file is written (\<open>None\<close>), or nothing is written and the call throws. \<^verbatim>\<open>WriteFile\<close>
  is the call of \<^verbatim>\<open>wfs.writeFile\<close>, \<^verbatim>\<open>WriteDone\<close> the run of its callback. Two events mark
  points of the control flow: \<^verbatim>\<open>Called\<close> is a call of \<^verbatim>\<open>UploadFiles\<close> with its source
  and destination, \<^verbatim>\<open>Awaited k p\<close> is the end of the \<^verbatim>\<open>await\<close> of the promise of the
  \<open>k\<close>-th call, which has settled as \<open>p\<close>.
\<close>

datatype event =
    ConsoleClear
  | ConsoleLog string
  | Require string
  | WriteFileSync string string "err option"
  | Execa string "string list"
  | Mkdir string string
  | Readdir string
  | ReadFile string
  | WriteFile string string string
  | WriteDone string "err option"
  | TaskOutput string
  | TaskTitle string
  | Called string string
  | Awaited nat promise

record state =
  trace :: "event list"
  batches :: "batch list"

definition emit :: "event list \<Rightarrow> state \<Rightarrow> state" where
  "emit es s = s\<lparr>trace := trace s @ es\<rparr>"

text \<open>\<^verbatim>\<open>path.join\<close>, without the normalisation of \<^verbatim>\<open>..\<close>.\<close>

definition path_join :: "string \<Rightarrow> string \<Rightarrow> string" where
  "path_join a b = a @ ''/'' @ b"

text \<open>
  \<^verbatim>\<open>WebDAVHelper.Connect\<close> builds a client for the URL of the store with the
  credentials of the configuration. The client is its URL here, and building it is
  taken not to throw.
\<close>

definition Connect :: "json \<Rightarrow> string" where
  "Connect config = ''https://store-'' @ STOREHASH config @ ''.mybigcommerce.com/dav''"

subsection \<open>UploadFiles inside the run\<close>

text \<open>
  A call of \<^verbatim>\<open>UploadFiles\<close>: every \<^verbatim>\<open>uploader(file)\<close> runs at once, in the order of
  the filtered list; the new batch is the last of \<open>batches\<close>.
\<close>

definition uploader_events :: "'a io_scheme \<Rightarrow> string \<Rightarrow> string \<Rightarrow> string \<Rightarrow> string \<Rightarrow> event list" where
  "uploader_events w url src dest file =
     ReadFile (local_path src file) #
     (case readFileSync w (local_path src file) of
        Inl e \<Rightarrow> []
      | Inr contents \<Rightarrow> [WriteFile url (remote_path dest file) contents])"

definition call_UploadFiles ::
  "'a io_scheme \<Rightarrow> string \<Rightarrow> string \<Rightarrow> string \<Rightarrow> string list \<Rightarrow> state \<Rightarrow> state" where
  "call_UploadFiles w url src dest files s =
     s\<lparr>trace := trace s @ Called src dest
                   # concat (map (uploader_events w url src dest) (filter includes_dot files)),
       batches := batches s @ [UploadFiles w src dest files]\<rparr>"

text \<open>
  The event loop delivers the completion of one write, \<open>(k, i)\<close>: element \<open>i\<close> of the
  \<open>k\<close>-th call of \<^verbatim>\<open>UploadFiles\<close>. The order of completions is the world's choice,
  given as a list; a pair that names no write in flight is skipped.
\<close>

definition deliver :: "'a io_scheme \<Rightarrow> nat \<times> nat \<Rightarrow> state \<Rightarrow> state" where
  "deliver w c s =
     (case c of (k, i) \<Rightarrow>
        if k < length (batches s) \<and> in_flight (batches s ! k) i then
          (let b = batches s ! k;
               p = remote_path (b_dest b) (u_file (b_uploads b ! i))
           in s\<lparr>trace := trace s @ [WriteDone p (writeFile w p)],
                batches := (batches s)[k := complete w i b]\<rparr>)
        else s)"

definition outer :: "nat \<Rightarrow> state \<Rightarrow> promise" where
  "outer k s = (if k < length (batches s) then b_outer (batches s ! k) else Pending)"

text \<open>
  \<^verbatim>\<open>await\<close> of the promise returned by the \<open>k\<close>-th call: completions are delivered
  until that promise has settled. When the completions run out first, the promise is
  still pending in the result: the script waits forever.
\<close>

fun await :: "'a io_scheme \<Rightarrow> nat \<Rightarrow> (nat \<times> nat) list \<Rightarrow> state \<Rightarrow> (nat \<times> nat) list \<times> state" where
  "await w k [] s = ([], s)"
| "await w k (c # cs) s =
     (if settled (outer k s) then (c # cs, s) else await w k cs (deliver w c s))"

subsection \<open>The three tasks\<close>

text \<open>
  How the promise of a task settles: it resolves, it rejects, or it stays pending for
  ever. \<^verbatim>\<open>MakeDir\<close> and \<^verbatim>\<open>ListFiles\<close> are written into the second task: the request is
  an event, and the \<^verbatim>\<open>err\<close> of the world decides between \<^verbatim>\<open>resolve\<close> and \<^verbatim>\<open>reject\<close>.
  The \<^verbatim>\<open>catch\<close> block of a task sets the title and rejects with the error it caught.
\<close>

datatype 'a settle = Resolves 'a | Rejects err | Never

record ctx =
  timestamp :: string
  destFolder :: string
  distFolder :: string
  distStaticFolder :: string
  distFiles :: "string list"
  distStaticFiles :: "string list"
  fileCount :: nat

definition Build_Checkout :: "world \<Rightarrow> state \<Rightarrow> state \<times> unit settle" where
  "Build_Checkout w s =
     (let s1 = emit [TaskOutput ''Building...'', Execa ''npm'' [''run'', ''build'']] s
      in case execa w ''npm'' [''run'', ''build''] of
           None \<Rightarrow> (s1, Resolves ())
         | Some message \<Rightarrow> (emit [TaskTitle ''Build failed''] s1, Rejects message))"

definition setup_failed :: "err \<Rightarrow> state \<Rightarrow> state \<times> ctx settle" where
  "setup_failed ex s = (emit [TaskTitle ''Pre-Deploy Setup Failed''] s, Rejects ex)"

definition Pre_Deploy_Setup :: "world \<Rightarrow> json \<Rightarrow> state \<Rightarrow> state \<times> ctx settle" where
  "Pre_Deploy_Setup w config s =
     (let s1 = emit [TaskOutput ''Creating a new versioned folder and...''] s;
          ts = make_timestamp (Date_now w);
          dest = ''/content/checkout/'' @ ts;
          s2 = emit [Mkdir (Connect config) dest] s1
      in case mkdir w dest of
           Some err \<Rightarrow> setup_failed err s2
         | None \<Rightarrow>
             (let s3 = emit [Mkdir (Connect config) (dest @ ''/static'')] s2
              in case mkdir w (dest @ ''/static'') of
                   Some err \<Rightarrow> setup_failed err s3
                 | None \<Rightarrow>
                     (let dist = path_join (dirname w) ''../dist'';
                          static = path_join (dirname w) ''../dist/static'';
                          s4 = emit [TaskOutput ''Getting a list of files and folder to upload...'',
                                     Readdir dist] s3
                      in case readdir w dist of
                           Inl err \<Rightarrow> setup_failed err s4
                         | Inr files \<Rightarrow>
                             (let s5 = emit [Readdir static] s4
                              in case readdir w static of
                                   Inl err \<Rightarrow> setup_failed err s5
                                 | Inr staticFiles \<Rightarrow>
                                     (s5, Resolves
                                        \<lparr>timestamp = ts,
                                         destFolder = dest,
                                         distFolder = dist,
                                         distStaticFolder = static,
                                         distFiles = files,
                                         distStaticFiles = staticFiles,
                                         fileCount = length (filter includes_dot (files @ staticFiles))\<rparr>)))))"

definition deploy_failed :: "err \<Rightarrow> state \<Rightarrow> state \<times> unit settle" where
  "deploy_failed ex s = (emit [TaskTitle ''Deployment failed''] s, Rejects ex)"

text \<open>
  The two calls of \<^verbatim>\<open>UploadFiles\<close> (\<open>first_call\<close>, after the task has set its
  output, and \<open>second_call\<close>, after the first \<^verbatim>\<open>await\<close> has ended) are the batches
  \<open>n\<close> and \<open>n + 1\<close>, where \<open>n\<close> batches exist when the task starts. An \<^verbatim>\<open>await\<close>
  continues on a fulfilled promise and throws the reason of a rejected one into the
  \<^verbatim>\<open>catch\<close> block.
\<close>

definition first_call :: "world \<Rightarrow> json \<Rightarrow> ctx \<Rightarrow> state \<Rightarrow> state" where
  "first_call w config c s =
     call_UploadFiles w (Connect config) (distFolder c) (destFolder c) (distFiles c)
       (emit [TaskOutput (''Uploading '' @ digits (fileCount c) @ '' files...'')] s)"

definition second_call :: "world \<Rightarrow> json \<Rightarrow> ctx \<Rightarrow> nat \<Rightarrow> state \<Rightarrow> state" where
  "second_call w config c n s =
     call_UploadFiles w (Connect config) (distStaticFolder c) (destFolder c @ ''/static'')
       (distStaticFiles c) (emit [Awaited n Fulfilled] s)"

definition Deploy_Checkout ::
  "world \<Rightarrow> json \<Rightarrow> ctx \<Rightarrow> (nat \<times> nat) list \<Rightarrow> state \<Rightarrow> state \<times> unit settle" where
  "Deploy_Checkout w config c sched s =
     (let n = length (batches s);
          (sched3, s3) = await w n sched (first_call w config c s)
      in case outer n s3 of
           Pending \<Rightarrow> (s3, Never)
         | Rejected ex \<Rightarrow> deploy_failed ex (emit [Awaited n (Rejected ex)] s3)
         | Fulfilled \<Rightarrow>
             (let (sched5, s5) = await w (n + 1) sched3 (second_call w config c n s3)
              in case outer (n + 1) s5 of
                   Pending \<Rightarrow> (s5, Never)
                 | Rejected ex \<Rightarrow> deploy_failed ex (emit [Awaited (n + 1) (Rejected ex)] s5)
                 | Fulfilled \<Rightarrow> (emit [Awaited (n + 1) Fulfilled] s5, Resolves ())))"

text \<open>
  \<^verbatim>\<open>tasks.run()\<close>, as Listr runs a list with its default options: the tasks run one
  after the other on one context; the run rejects with the error of the first task
  that rejects and starts no later task.
\<close>

definition tasks_run :: "world \<Rightarrow> json \<Rightarrow> (nat \<times> nat) list \<Rightarrow> state \<Rightarrow> state \<times> ctx settle" where
  "tasks_run w config sched s =
     (case Build_Checkout w s of
        (s1, Rejects ex) \<Rightarrow> (s1, Rejects ex)
      | (s1, Never) \<Rightarrow> (s1, Never)
      | (s1, Resolves u) \<Rightarrow>
          (case Pre_Deploy_Setup w config s1 of
             (s2, Rejects ex) \<Rightarrow> (s2, Rejects ex)
           | (s2, Never) \<Rightarrow> (s2, Never)
           | (s2, Resolves c) \<Rightarrow>
               (case Deploy_Checkout w config c sched s2 of
                  (s3, Rejects ex) \<Rightarrow> (s3, Rejects ex)
                | (s3, Never) \<Rightarrow> (s3, Never)
                | (s3, Resolves u) \<Rightarrow> (s3, Resolves c))))"

definition finished :: "json \<Rightarrow> string \<Rightarrow> event list" where
  "finished config ts =
     [ConsoleLog (''  '' @ [CHR 0xE2, CHR 0x88, CHR 0x9A] @ '' Finished''),
      ConsoleLog [],
      ConsoleLog ''---------------------------------------'',
      ConsoleLog ''Manual Step Required'',
      ConsoleLog ''---------------------------------------'',
      ConsoleLog ''A final step is required to change the storefront checkout to the newly deployed checkout.'',
      ConsoleLog [],
      ConsoleLog (''1. Go to https://store-'' @ STOREHASH config
                  @ ''.mybigcommerce.com/manage/settings/checkout''),
      ConsoleLog (''2. Under '' @ quoted ''Custom Checkout Settings'' @ '', replace ''
                  @ quoted ''Script URL'' @ '' with the following:''),
      ConsoleLog (''   webdav:checkout/'' @ ts @ ''/auto-loader-1.96.1.js''),
      ConsoleLog ''3. Click Save'',
      ConsoleLog [],
      ConsoleLog ([CHR 0xF0, CHR 0x9F, CHR 0x8E, CHR 0x89] @ '' Thanks for deploying!'')]"

subsection \<open>The whole script\<close>

text \<open>
  How the script ends: by a \<^verbatim>\<open>return\<close> before the tasks, by an exception that nothing
  catches (the process ends with it), with the run rejected (and \<^verbatim>\<open>finished\<close> not
  called), with the run pending for ever, or after \<^verbatim>\<open>finished\<close>.
\<close>

datatype outcome = Returned | Threw err | RunRejected err | RunPending | Finished

definition header :: "event list" where
  "header =
     [ConsoleClear,
      ConsoleLog ''---------------------------------------'',
      ConsoleLog ''Automated Custom Checkout Deployment'',
      ConsoleLog ''Builds and deploys custom checkout to a versioned folder on WebDAV.'',
      ConsoleLog ''---------------------------------------'',
      ConsoleLog []]"

definition usage :: "event list" where
  "usage = [ConsoleLog ''Please pass an environment (sandbox, prod) or use the npm run commands'']"

definition env_file :: "string \<Rightarrow> string" where
  "env_file env = ''../env.'' @ env @ ''.json''"

definition missing_credentials_message :: "string \<Rightarrow> event list" where
  "missing_credentials_message env =
     [ConsoleLog (''The env.'' @ env @ ''.json file is missing WebDAV credentials.'' @ [CHR 0x0A]
                  @ ''Please add the credentials to the file and try again.'')]"

text \<open>
  The \<^verbatim>\<open>catch\<close> block of the configuration loading: two lines on the console, then
  \<^verbatim>\<open>fs.writeFileSync\<close> of the sample file, then \<^verbatim>\<open>return\<close>. An exception of
  \<^verbatim>\<open>fs.writeFileSync\<close> is caught by nothing.
\<close>

definition catch_config :: "world \<Rightarrow> string \<Rightarrow> state \<Rightarrow> state \<times> outcome" where
  "catch_config w env s =
     (let p = path_join (dirname w) (env_file env);
          sample = JSON_stringify sampleFile;
          s1 = emit [ConsoleLog (''Missing env.'' @ env @ ''.json file.''),
                     ConsoleLog ''A sample file was created for you, please fill out the storefront WebDAV credentials and try again.'',
                     WriteFileSync p sample (writeFileSync w p sample)] s
      in case writeFileSync w p sample of
           None \<Rightarrow> (s1, Returned)
         | Some ex \<Rightarrow> (s1, Threw ex))"

text \<open>\<^verbatim>\<open>process.argv[2]\<close>; \<open>None\<close> is \<^verbatim>\<open>undefined\<close>.\<close>

definition argv2 :: "world \<Rightarrow> string option" where
  "argv2 w = (if 2 < length (argv w) then Some (argv w ! 2) else None)"

definition initial :: state where
  "initial = \<lparr>trace = [], batches = []\<rparr>"

definition deploy :: "world \<Rightarrow> (nat \<times> nat) list \<Rightarrow> state \<times> outcome" where
  "deploy w sched =
     (let s0 = emit header initial
      in case argv2 w of
           None \<Rightarrow> (emit usage s0, Returned)
         | Some env \<Rightarrow>
             if env = [] then (emit usage s0, Returned)
             else
               (let s1 = emit [Require (path_join (dirname w) (env_file env))] s0
                in case require w (path_join (dirname w) (env_file env)) of
                     Inl ex \<Rightarrow> catch_config w env s1
                   | Inr config \<Rightarrow>
                       (case missing_credentials config of
                          Inl ex \<Rightarrow> catch_config w env s1
                        | Inr True \<Rightarrow> (emit (missing_credentials_message env) s1, Returned)
                        | Inr False \<Rightarrow>
                            (case tasks_run w config sched s1 of
                               (s, Rejects ex) \<Rightarrow> (s, RunRejected ex)
                             | (s, Never) \<Rightarrow> (s, RunPending)
                             | (s, Resolves c) \<Rightarrow>
                                 (emit (finished config (timestamp c)) s, Finished)))))"

section \<open>Invariants of a call of UploadFiles\<close>

text \<open>
  The element at index \<open>j\<close>, for the file \<open>f\<close>, once the writes listed in \<open>cs\<close> have
  completed: rejected from the start when the file could not be read, settled by the
  callback when its write has completed, pending otherwise.
\<close>

definition upload_after :: "'a io_scheme \<Rightarrow> string \<Rightarrow> string \<Rightarrow> nat list \<Rightarrow> nat \<Rightarrow> string \<Rightarrow> upload" where
  "upload_after w src dest cs j f =
     (case readFileSync w (local_path src f) of
        Inl e \<Rightarrow> \<lparr>u_file = f, u_promise = Rejected e, u_issued = False\<rparr>
      | Inr contents \<Rightarrow>
          \<lparr>u_file = f,
           u_promise =
             (if j \<in> set cs
              then (case writeFile w (remote_path dest f) of Some e \<Rightarrow> Rejected e | None \<Rightarrow> Fulfilled)
              else Pending),
           u_issued = True\<rparr>)"

text \<open>
  The aggregate and the returned promise agree with the elements: the aggregate is
  pending only while no element has rejected and some element is not fulfilled, a
  rejected aggregate carries the reason of a rejected element, a fulfilled one has only
  fulfilled elements, and the returned promise is pending exactly as long as the
  aggregate is and fulfilled from then on.
\<close>

definition batch_inv :: "batch \<Rightarrow> bool" where
  "batch_inv b =
     (let ps = map u_promise (b_uploads b) in
      (b_all b = Pending \<longrightarrow> first_rejection ps = None \<and> \<not> list_all (\<lambda>p. p = Fulfilled) ps) \<and>
      (\<forall>e. b_all b = Rejected e \<longrightarrow> Rejected e \<in> set ps) \<and>
      (b_all b = Fulfilled \<longrightarrow> list_all (\<lambda>p. p = Fulfilled) ps) \<and>
      b_outer b = (if b_all b = Pending then Pending else Fulfilled))"

section \<open>Runs of the event loop\<close>

text \<open>
  \<open>delivers\<close> is a sequence of completions; \<open>completions_of k\<close> are those of them that
  belong to the \<open>k\<close>-th call; \<open>covers k n\<close> says that each of the first \<open>n\<close> elements of
  the \<open>k\<close>-th call has a completion in the list.
\<close>

definition delivers :: "'a io_scheme \<Rightarrow> (nat \<times> nat) list \<Rightarrow> state \<Rightarrow> state" where
  "delivers w ds s = foldl (\<lambda>s c. deliver w c s) s ds"

definition completions_of :: "nat \<Rightarrow> (nat \<times> nat) list \<Rightarrow> nat list" where
  "completions_of k ds = map snd (filter (\<lambda>c. fst c = k) ds)"

definition covers :: "nat \<Rightarrow> nat \<Rightarrow> (nat \<times> nat) list \<Rightarrow> bool" where
  "covers k n ds = list_all (\<lambda>i. (k, i) \<in> set ds) [0..<n]"

section \<open>Kinds of events\<close>

text \<open>
  \<open>is_remote\<close>: an operation on the WebDAV server. \<open>is_control\<close>: a call of
  \<^verbatim>\<open>UploadFiles\<close> or the end of an \<^verbatim>\<open>await\<close>. \<open>side_effect\<close>: an event that changes
  something outside the process (a call that writes a local file, a process started,
  an operation on the server); console output and reads are not.
\<close>

fun is_remote :: "event \<Rightarrow> bool" where
  "is_remote (Mkdir url p) = True"
| "is_remote (WriteFile url p c) = True"
| "is_remote e = False"

fun is_control :: "event \<Rightarrow> bool" where
  "is_control (Called src dest) = True"
| "is_control (Awaited k p) = True"
| "is_control e = False"

fun is_ReadFile :: "event \<Rightarrow> bool" where
  "is_ReadFile (ReadFile p) = True"
| "is_ReadFile e = False"

fun side_effect :: "event \<Rightarrow> bool" where
  "side_effect (WriteFileSync p d r) = True"
| "side_effect (Execa c args) = True"
| "side_effect (Mkdir url p) = True"
| "side_effect (WriteFile url p c) = True"
| "side_effect e = False"

text \<open>The writes that a call of \<^verbatim>\<open>UploadFiles\<close> issues: one for each file that can be read.\<close>

definition writes_of :: "'a io_scheme \<Rightarrow> string \<Rightarrow> string \<Rightarrow> string \<Rightarrow> string list \<Rightarrow> event list" where
  "writes_of w url src dest fs =
     concat (map (\<lambda>f. case readFileSync w (local_path src f) of
                          Inl e \<Rightarrow> []
                        | Inr contents \<Rightarrow> [WriteFile url (remote_path dest f) contents]) fs)"

fun is_console :: "event \<Rightarrow> bool" where
  "is_console ConsoleClear = True"
| "is_console (ConsoleLog s) = True"
| "is_console e = False"

section \<open>The order of a run\<close>

text \<open>
  The remote destination and the two local directories of a run, as the second task
  computes them, and the context it builds from two listings.
\<close>

definition run_dest :: "world \<Rightarrow> string" where
  "run_dest w = ''/content/checkout/'' @ make_timestamp (Date_now w)"

definition run_dist :: "world \<Rightarrow> string" where
  "run_dist w = path_join (dirname w) ''../dist''"

definition run_static :: "world \<Rightarrow> string" where
  "run_static w = path_join (dirname w) ''../dist/static''"

definition run_ctx :: "world \<Rightarrow> string list \<Rightarrow> string list \<Rightarrow> ctx" where
  "run_ctx w files staticFiles =
     \<lparr>timestamp = make_timestamp (Date_now w),
      destFolder = run_dest w,
      distFolder = run_dist w,
      distStaticFolder = run_static w,
      distFiles = files,
      distStaticFiles = staticFiles,
      fileCount = length (filter includes_dot (files @ staticFiles))\<rparr>"

definition listing :: "world \<Rightarrow> string \<Rightarrow> string list" where
  "listing w p = (case readdir w p of Inl e \<Rightarrow> [] | Inr files \<Rightarrow> files)"

text \<open>
  The remote operations, calls and ends of awaits of a run that goes all the way, in
  their order: both directories are created, then \<^verbatim>\<open>UploadFiles\<close> is called for the
  build output and issues its writes, then its promise has been awaited, then
  \<^verbatim>\<open>UploadFiles\<close> is called for the static directory and issues its writes, then its
  promise has been awaited.
\<close>

definition upload_order :: "world \<Rightarrow> string \<Rightarrow> event list" where
  "upload_order w url =
     [Mkdir url (run_dest w), Mkdir url (run_dest w @ ''/static''),
      Called (run_dist w) (run_dest w)]
     @ writes_of w url (run_dist w) (run_dest w) (filter includes_dot (listing w (run_dist w)))
     @ [Awaited 0 Fulfilled, Called (run_static w) (run_dest w @ ''/static'')]
     @ writes_of w url (run_static w) (run_dest w @ ''/static'')
         (filter includes_dot (listing w (run_static w)))
     @ [Awaited 1 Fulfilled]"

definition remote_or_control :: "event \<Rightarrow> bool" where
  "remote_or_control e = (is_remote e \<or> is_control e)"

section \<open>The failure of an upload\<close>

text \<open>
  \<open>upload_error\<close>: the error with which the upload of a file fails, if it does (the
  file cannot be read, or the write fails). \<open>has_failed\<close>: whether that failure has
  happened once the writes listed in \<open>cs\<close> have completed; a file that cannot be read
  fails when \<^verbatim>\<open>uploader\<close> runs, a write fails when it completes.
\<close>

definition upload_error :: "'a io_scheme \<Rightarrow> string \<Rightarrow> string \<Rightarrow> string \<Rightarrow> err option" where
  "upload_error w src dest f =
     (case readFileSync w (local_path src f) of
        Inl e \<Rightarrow> Some e
      | Inr contents \<Rightarrow> writeFile w (remote_path dest f))"

definition has_failed :: "'a io_scheme \<Rightarrow> string \<Rightarrow> string \<Rightarrow> nat list \<Rightarrow> nat \<Rightarrow> bool" where
  "has_failed w src f cs i =
     (case readFileSync w (local_path src f) of
        Inl e \<Rightarrow> True
      | Inr contents \<Rightarrow> i \<in> set cs)"

section \<open>The identifier from the fields of the time\<close>

text \<open>
  \<open>month_start\<close>: the day within the year on which a month begins. \<open>stamp\<close>: the
  identifier written from the six fields year, month (from 1), day, hour, minute and
  second.
\<close>

definition month_start :: "int \<Rightarrow> int \<Rightarrow> int" where
  "month_start l m =
     (if m = 0 then 0 else if m = 1 then 31 else if m = 2 then 59 + l
      else if m = 3 then 90 + l else if m = 4 then 120 + l else if m = 5 then 151 + l
      else if m = 6 then 181 + l else if m = 7 then 212 + l else if m = 8 then 243 + l
      else if m = 9 then 273 + l else if m = 10 then 304 + l else 334 + l)"

definition stamp :: "nat \<Rightarrow> nat \<Rightarrow> nat \<Rightarrow> nat \<Rightarrow> nat \<Rightarrow> nat \<Rightarrow> string" where
  "stamp y mo d h mi s =
     pad 4 y @ ''-'' @ pad 2 mo @ ''-'' @ pad 2 d @ pad 2 h @ ''_'' @ pad 2 mi @ ''_'' @ pad 2 s"

section \<open>Example worlds\<close>


definition flaky_io :: io where
  "flaky_io =
     \<lparr>readFileSync = (\<lambda>p. Inr ''data''),
      writeFile = (\<lambda>p. if p = ''/dest/a.js'' then Some ''E503'' else None)\<rparr>"

text \<open>
  \<open>sandbox\<close>: a run for the environment \<^verbatim>\<open>sandbox\<close> with complete credentials, a build
  that succeeds, a server that creates both directories, and the build output
  \<^verbatim>\<open>a.js\<close>, \<^verbatim>\<open>b.js\<close> and the directory \<^verbatim>\<open>static\<close> holding \<^verbatim>\<open>c.css\<close>; the write of
  \<^verbatim>\<open>a.js\<close> fails. \<open>no_config\<close>: the same, but \<^verbatim>\<open>env.sandbox.json\<close> does not exist.
  \<open>build_fails\<close>: the same as \<open>sandbox\<close>, but the build exits with status 1.
\<close>

definition sandbox_config :: json where
  "sandbox_config =
     JObj [(''WEBDAV_STOREHASH'', JStr ''abc''), (''WEBDAV_USERNAME'', JStr ''user''),
           (''WEBDAV_PASSWORD'', JStr ''secret'')]"

definition sandbox :: world where
  "sandbox =
     \<lparr>readFileSync = (\<lambda>p. Inr ''data''),
      writeFile = (\<lambda>p. if p = ''/content/checkout/2023-11-1422_13_20/a.js'' then Some ''E503'' else None),
      argv = [''node'', ''scripts/deploy'', ''sandbox''],
      dirname = ''/repo/scripts'',
      require = (\<lambda>p. Inr sandbox_config),
      writeFileSync = (\<lambda>p d. None),
      execa = (\<lambda>c args. None),
      Date_now = 1700000000123,
      mkdir = (\<lambda>p. None),
      readdir = (\<lambda>p. if p = ''/repo/scripts/../dist'' then Inr [''a.js'', ''b.js'', ''static'']
                       else Inr [''c.css''])\<rparr>"

definition no_config :: world where
  "no_config = sandbox\<lparr>require := (\<lambda>p. Inl ''Cannot find module'')\<rparr>"

definition build_fails :: world where
  "build_fails = sandbox\<lparr>execa := (\<lambda>c args. Some ''Command failed with exit code 1'')\<rparr>"

text \<open>
  \<open>no_directory\<close>: the script is started for the environment \<^verbatim>\<open>x/y\<close>; there is no
  such configuration file, and no directory \<^verbatim>\<open>env.x\<close> in which \<^verbatim>\<open>fs.writeFileSync\<close>
  could create it. \<open>null_config\<close>: the configuration file holds \<^verbatim>\<open>null\<close>.
\<close>

definition no_directory :: world where
  "no_directory =
     sandbox\<lparr>argv := [''node'', ''scripts/deploy'', ''x/y''],
             require := (\<lambda>p. Inl ''Cannot find module''),
             writeFileSync := (\<lambda>p d. if p = ''/repo/scripts/../env.x/y.json''
                                      then Some ''ENOENT'' else None)\<rparr>"

definition null_config :: world where
  "null_config = sandbox\<lparr>require := (\<lambda>p. Inr JNull)\<rparr>"

text \<open>
  \<open>no_argument\<close>: the script is started without an environment. \<open>incomplete\<close>: the
  configuration file has an empty password.
\<close>

definition no_argument :: world where
  "no_argument = sandbox\<lparr>argv := [''node'', ''scripts/deploy'']\<rparr>"

definition incomplete :: world where
  "incomplete =
     sandbox\<lparr>require := (\<lambda>p. Inr (JObj [(''WEBDAV_STOREHASH'', JStr ''abc''),
                                         (''WEBDAV_USERNAME'', JStr ''user''),
                                         (''WEBDAV_PASSWORD'', JStr [])]))\<rparr>"

text \<open>
  \<open>sandbox_ctx\<close> is the context of the run \<open>sandbox\<close>, and \<open>sandbox_setup\<close> the state in
  which its third task starts when the second task started in \<open>initial\<close>.
\<close>

definition sandbox_ctx :: ctx where
  "sandbox_ctx = run_ctx sandbox [''a.js'', ''b.js'', ''static''] [''c.css'']"

definition sandbox_setup :: state where
  "sandbox_setup =
     emit [TaskOutput ''Creating a new versioned folder and...'',
           Mkdir (Connect sandbox_config) (run_dest sandbox),
           Mkdir (Connect sandbox_config) (run_dest sandbox @ ''/static''),
           TaskOutput ''Getting a list of files and folder to upload...'',
           Readdir (run_dist sandbox), Readdir (run_static sandbox)] initial"

section \<open>Properties of a call of UploadFiles\<close>

lemma react_uploads [simp]: "b_uploads (react b) = b_uploads b"
  by (simp add: react_def Let_def)

lemma react_dest [simp]: "b_dest (react b) = b_dest b"
  by (simp add: react_def Let_def)

lemma first_rejection_Some: "first_rejection ps = Some e \<Longrightarrow> Rejected e \<in> set ps"
  by (induction ps rule: first_rejection.induct) auto

lemma first_rejection_None: "first_rejection ps = None \<Longrightarrow> Rejected e \<notin> set ps"
  by (induction ps rule: first_rejection.induct) auto

lemma UploadFiles_uploads:
  "b_uploads (UploadFiles w src dest files) = map (uploader w src) (filter includes_dot files)"
  by (simp add: UploadFiles_def)

lemma UploadFiles_dest [simp]: "b_dest (UploadFiles w src dest files) = dest"
  by (simp add: UploadFiles_def)

lemma react_inv:
  assumes "b_all b = Pending" "b_outer b = Pending"
  shows "batch_inv (react b)"
  using assms
  by (auto simp: batch_inv_def react_def Let_def promise_all_def finally_catch_def
      dest: first_rejection_Some split: option.splits)

lemma react_settled:
  assumes "b_all b \<noteq> Pending"
  shows "react b = b"
  using assms by (simp add: react_def Let_def promise_all_def)

lemma UploadFiles_inv: "batch_inv (UploadFiles w src dest files)"
  unfolding UploadFiles_def by (rule react_inv) simp_all

lemma complete_uploads_length [simp]: "length (b_uploads (complete w i b)) = length (b_uploads b)"
  by (simp add: complete_def Let_def)

lemma complete_dest [simp]: "b_dest (complete w i b) = b_dest b"
  by (simp add: complete_def Let_def)

lemma settle_keeps_members:
  assumes "ps ! i = Pending" "i < length ps" "Rejected e \<in> set ps"
  shows "Rejected e \<in> set (ps[i := q])"
proof -
  from assms(3) obtain j where j: "j < length ps" "ps ! j = Rejected e"
    by (auto simp: in_set_conv_nth)
  with assms(1) have "j \<noteq> i" by auto
  with j have "ps[i := q] ! j = Rejected e" "j < length (ps[i := q])" by simp_all
  then show ?thesis by (metis nth_mem)
qed

lemma complete_inv:
  assumes "batch_inv b"
  shows "batch_inv (complete w i b)"
proof (cases "in_flight b i")
  case False
  then show ?thesis using assms by (simp add: complete_def)
next
  case True
  define u' where "u' = (b_uploads b ! i)\<lparr>u_promise := write_callback
        (writeFile w (remote_path (b_dest b) (u_file (b_uploads b ! i)))) (u_promise (b_uploads b ! i))\<rparr>"
  define b' where "b' = b\<lparr>b_uploads := (b_uploads b)[i := u']\<rparr>"
  have c: "complete w i b = react b'"
    using True by (simp add: complete_def Let_def b'_def u'_def)
  have i: "i < length (b_uploads b)" "u_promise (b_uploads b ! i) = Pending"
    using True by (simp_all add: in_flight_def)
  have ps': "map u_promise (b_uploads b') = (map u_promise (b_uploads b))[i := u_promise u']"
    by (simp add: b'_def map_update)
  show ?thesis
  proof (cases "b_all b = Pending")
    case True
    then have "b_all b' = Pending" "b_outer b' = Pending"
      using assms by (simp_all add: b'_def batch_inv_def Let_def)
    then show ?thesis unfolding c by (rule react_inv)
  next
    case False
    then have "b_all b' \<noteq> Pending" by (simp add: b'_def)
    then have r: "react b' = b'" by (rule react_settled)
    have nf: "b_all b \<noteq> Fulfilled"
    proof
      assume "b_all b = Fulfilled"
      then have "list_all (\<lambda>p. p = Fulfilled) (map u_promise (b_uploads b))"
        using assms by (simp add: batch_inv_def Let_def)
      then have "u_promise (b_uploads b ! i) = Fulfilled"
        using i(1) by (simp add: list_all_length)
      with i(2) show False by simp
    qed
    from False nf obtain e where e: "b_all b = Rejected e" by (cases "b_all b") auto
    then have "Rejected e \<in> set (map u_promise (b_uploads b))"
      using assms by (simp add: batch_inv_def Let_def)
    then have "Rejected e \<in> set ((map u_promise (b_uploads b))[i := u_promise u'])"
      using i by (intro settle_keeps_members) simp_all
    then have "Rejected e \<in> set (map u_promise (b_uploads b'))" by (simp only: ps')
    moreover have "b_outer b' = Fulfilled" "b_all b' = Rejected e"
      using assms e by (simp_all add: b'_def batch_inv_def Let_def)
    ultimately have "batch_inv b'"
      unfolding batch_inv_def Let_def by simp
    then show ?thesis by (simp add: c r)
  qed
qed

lemma completes_snoc: "completes w (cs @ [c]) b = complete w c (completes w cs b)"
  by (simp add: completes_def)

lemma completes_Nil [simp]: "completes w [] b = b"
  by (simp add: completes_def)

lemma completes_inv: "batch_inv b \<Longrightarrow> batch_inv (completes w cs b)"
  by (induction cs rule: rev_induct) (simp_all add: completes_snoc complete_inv)

lemma uploader_eq: "uploader w src f = upload_after w src dest [] j f"
  by (simp add: uploader_def upload_after_def split: sum.splits)

lemma upload_after_file [simp]: "u_file (upload_after w src dest cs j f) = f"
  by (simp add: upload_after_def split: sum.splits)

lemma completes_dest [simp]: "b_dest (completes w cs b) = b_dest b"
  by (induction cs rule: rev_induct) (simp_all add: completes_snoc)

lemma completes_length [simp]: "length (b_uploads (completes w cs b)) = length (b_uploads b)"
  by (induction cs rule: rev_induct) (simp_all add: completes_snoc)

lemma uploads_after:
  fixes w :: "'a io_scheme"
  defines "fs \<equiv> \<lambda>files. filter includes_dot files"
  assumes j: "j < length (fs files)"
  shows "b_uploads (completes w cs (UploadFiles w src dest files)) ! j
         = upload_after w src dest cs j (fs files ! j)"
  using j
proof (induction cs arbitrary: j rule: rev_induct)
  case Nil
  then show ?case
    by (simp add: UploadFiles_uploads fs_def uploader_eq [where dest = dest and j = j])
next
  case (snoc c cs)
  define B where "B = completes w cs (UploadFiles w src dest files)"
  have len: "length (b_uploads B) = length (fs files)"
    by (simp add: B_def UploadFiles_uploads fs_def)
  have dest: "b_dest B = dest" by (simp add: B_def)
  have IH: "\<And>k. k < length (fs files) \<Longrightarrow> b_uploads B ! k = upload_after w src dest cs k (fs files ! k)"
    using snoc.IH by (simp add: B_def)
  show ?case
  proof (cases "in_flight B c")
    case True
    then have c: "c < length (fs files)" "u_issued (b_uploads B ! c)" "u_promise (b_uploads B ! c) = Pending"
      using len by (simp_all add: in_flight_def)
    have cc: "b_uploads B ! c = upload_after w src dest cs c (fs files ! c)" using IH c(1) by simp
    show ?thesis
    proof (cases "j = c")
      case True
      show ?thesis
        using c cc snoc.prems \<open>in_flight B c\<close> len
        unfolding completes_snoc B_def [symmetric] True
        by (auto simp: complete_def Let_def dest upload_after_def write_callback_def
            split: sum.splits option.splits if_splits)
    next
      case False
      have "b_uploads (complete w c B) ! j = b_uploads B ! j"
        using False \<open>in_flight B c\<close> by (simp add: complete_def Let_def)
      also have "\<dots> = upload_after w src dest cs j (fs files ! j)" using IH snoc.prems by simp
      also have "\<dots> = upload_after w src dest (cs @ [c]) j (fs files ! j)"
        using False by (simp add: upload_after_def)
      finally show ?thesis unfolding completes_snoc B_def [symmetric] .
    qed
  next
    case False
    have "b_uploads (complete w c B) ! j = b_uploads B ! j"
      using False by (simp add: complete_def)
    also have "\<dots> = upload_after w src dest cs j (fs files ! j)" using IH snoc.prems by simp
    also have "\<dots> = upload_after w src dest (cs @ [c]) j (fs files ! j)"
    proof (cases "j = c")
      case True
      with False snoc.prems len have "\<not> u_issued (b_uploads B ! j) \<or> u_promise (b_uploads B ! j) \<noteq> Pending"
        by (simp add: in_flight_def)
      then show ?thesis
        using IH [OF snoc.prems] True
        by (auto simp: upload_after_def split: sum.splits if_splits)
    next
      case False
      then show ?thesis by (simp add: upload_after_def)
    qed
    finally show ?thesis unfolding completes_snoc B_def [symmetric] .
  qed
qed

lemma promises_settled:
  assumes "\<forall>i < length (filter includes_dot files). i \<in> set cs"
    and "p \<in> set (map u_promise (b_uploads (completes w cs (UploadFiles w src dest files))))"
  shows "p \<noteq> Pending"
proof -
  define B where "B = completes w cs (UploadFiles w src dest files)"
  have len: "length (b_uploads B) = length (filter includes_dot files)"
    by (simp add: B_def UploadFiles_uploads)
  from assms(2) obtain j where j: "j < length (b_uploads B)" "p = u_promise (b_uploads B ! j)"
    unfolding B_def [symmetric] by (auto simp: in_set_conv_nth)
  then have "b_uploads B ! j = upload_after w src dest cs j (filter includes_dot files ! j)"
    unfolding B_def using len uploads_after [of j files w cs src dest] by (simp add: B_def)
  moreover have "j \<in> set cs" using assms(1) j(1) len by simp
  ultimately show ?thesis
    using j(2) by (simp add: upload_after_def split: sum.splits option.splits)
qed

lemma all_fulfilled_or_rejected:
  assumes "\<forall>p \<in> set ps. p \<noteq> Pending" "first_rejection ps = None"
  shows "list_all (\<lambda>p. p = Fulfilled) ps"
  using assms by (induction ps rule: first_rejection.induct) auto

lemma outer_not_rejected:
  "b_outer (completes w cs (UploadFiles w src dest files)) \<noteq> Rejected e"
proof -
  have "batch_inv (completes w cs (UploadFiles w src dest files))"
    by (intro completes_inv UploadFiles_inv)
  then show ?thesis by (simp add: batch_inv_def Let_def split: if_splits)
qed

lemma outer_fulfilled:
  assumes "\<forall>i < length (filter includes_dot files). i \<in> set cs"
  shows "b_outer (completes w cs (UploadFiles w src dest files)) = Fulfilled"
proof -
  define B where "B = completes w cs (UploadFiles w src dest files)"
  have inv: "batch_inv B" unfolding B_def by (intro completes_inv UploadFiles_inv)
  have np: "\<forall>p \<in> set (map u_promise (b_uploads B)). p \<noteq> Pending"
    unfolding B_def using promises_settled [OF assms] by blast
  have "b_all B \<noteq> Pending"
  proof
    assume "b_all B = Pending"
    with inv have "first_rejection (map u_promise (b_uploads B)) = None"
      and "\<not> list_all (\<lambda>p. p = Fulfilled) (map u_promise (b_uploads B))"
      by (simp_all add: batch_inv_def Let_def)
    with all_fulfilled_or_rejected [OF np] show False by simp
  qed
  with inv show ?thesis unfolding B_def [symmetric] by (simp add: batch_inv_def Let_def)
qed

lemma uploader_file [simp]: "u_file (uploader w src f) = f"
  by (simp add: uploader_def split: sum.splits)



section \<open>Properties of the event loop and of the upload task\<close>

lemma complete_idle: "\<not> in_flight b i \<Longrightarrow> complete w i b = b"
  by (simp add: complete_def)

lemma deliver_batches:
  "batches (deliver w (k, i) s) =
     (if k < length (batches s) then (batches s)[k := complete w i (batches s ! k)] else batches s)"
  by (simp add: deliver_def Let_def complete_idle)

lemma deliver_length [simp]: "length (batches (deliver w c s)) = length (batches s)"
  by (cases c) (simp add: deliver_batches)

lemma delivers_Nil [simp]: "delivers w [] s = s"
  by (simp add: delivers_def)

lemma delivers_Cons [simp]: "delivers w (c # cs) s = delivers w cs (deliver w c s)"
  by (simp add: delivers_def)

lemma delivers_length [simp]: "length (batches (delivers w ds s)) = length (batches s)"
  by (induction ds arbitrary: s) simp_all

lemma completes_Cons: "completes w (c # cs) b = completes w cs (complete w c b)"
  by (simp add: completes_def)

lemma delivers_batch:
  "k < length (batches s) \<Longrightarrow>
   batches (delivers w ds s) ! k = completes w (completions_of k ds) (batches s ! k)"
proof (induction ds arbitrary: s)
  case Nil
  then show ?case by (simp add: completions_of_def completes_def)
next
  case (Cons c ds)
  obtain k' i where c: "c = (k', i)" by (cases c)
  have "batches (delivers w (c # ds) s) ! k
        = completes w (completions_of k ds) (batches (deliver w c s) ! k)"
    using Cons by simp
  also have "\<dots> = completes w (completions_of k (c # ds)) (batches s ! k)"
    using Cons.prems
    by (auto simp: c deliver_batches completions_of_def completes_Cons nth_list_update)
  finally show ?case .
qed

lemma await_decomp:
  "await w k sched s = (sched', s') \<Longrightarrow>
   \<exists>ds. sched = ds @ sched' \<and> s' = delivers w ds s \<and> (settled (outer k s') \<or> sched' = [])"
proof (induction sched arbitrary: s)
  case Nil
  then show ?case by simp
next
  case (Cons c cs)
  show ?case
  proof (cases "settled (outer k s)")
    case True
    with Cons.prems have "sched' = c # cs" "s' = s" by simp_all
    with True show ?thesis by (intro exI [of _ "[]"]) simp
  next
    case False
    with Cons.prems have "await w k cs (deliver w c s) = (sched', s')" by simp
    from Cons.IH [OF this] obtain ds where
      "cs = ds @ sched'" "s' = delivers w ds (deliver w c s)" "settled (outer k s') \<or> sched' = []"
      by blast
    then show ?thesis by (intro exI [of _ "c # ds"]) simp
  qed
qed

lemma await_prefix:
  "settled (outer k (delivers w a s)) \<Longrightarrow>
   \<exists>a1 a2. a = a1 @ a2 \<and> await w k (a @ b) s = (a2 @ b, delivers w a1 s)
           \<and> settled (outer k (delivers w a1 s))"
proof (induction a arbitrary: s)
  case Nil
  then show ?case by (cases b) simp_all
next
  case (Cons c cs)
  show ?case
  proof (cases "settled (outer k s)")
    case True
    then show ?thesis by (intro exI [of _ "[]"] exI [of _ "c # cs"]) simp
  next
    case False
    from Cons.prems have "settled (outer k (delivers w cs (deliver w c s)))" by simp
    from Cons.IH [OF this] obtain a1 a2 where
      "cs = a1 @ a2" "await w k (cs @ b) (deliver w c s) = (a2 @ b, delivers w a1 (deliver w c s))"
      "settled (outer k (delivers w a1 (deliver w c s)))" by blast
    with False show ?thesis by (intro exI [of _ "c # a1"] exI [of _ a2]) simp
  qed
qed

lemma covers_completions:
  "covers k n ds \<Longrightarrow> \<forall>i<n. i \<in> set (completions_of k ds)"
  by (force simp: covers_def completions_of_def list_all_iff)

lemma covers_append: "covers k n b \<Longrightarrow> covers k n (a @ b)"
  by (simp add: covers_def list_all_iff)

lemma fresh_batch_settles:
  assumes "k < length (batches s)" "batches s ! k = UploadFiles w src dest files"
    and "covers k (length (filter includes_dot files)) a"
  shows "outer k (delivers w a s) = Fulfilled"
proof -
  have "batches (delivers w a s) ! k = completes w (completions_of k a) (UploadFiles w src dest files)"
    using assms(1,2) by (simp add: delivers_batch)
  moreover have "b_outer (completes w (completions_of k a) (UploadFiles w src dest files)) = Fulfilled"
    using covers_completions [OF assms(3)] by (rule outer_fulfilled)
  ultimately show ?thesis using assms(1) by (simp add: outer_def)
qed

lemma batch_never_rejects:
  assumes "k < length (batches s)" "batches s ! k = UploadFiles w src dest files"
  shows "outer k (delivers w a s) \<noteq> Rejected e"
proof -
  have "batches (delivers w a s) ! k = completes w (completions_of k a) (UploadFiles w src dest files)"
    using assms by (simp add: delivers_batch)
  then show ?thesis using assms(1) outer_not_rejected by (simp add: outer_def)
qed

lemma call_UploadFiles_batches [simp]:
  "batches (call_UploadFiles w url src dest files s) = batches s @ [UploadFiles w src dest files]"
  by (simp add: call_UploadFiles_def)

lemma emit_batches [simp]: "batches (emit es s) = batches s"
  by (simp add: emit_def)

lemma emit_trace [simp]: "trace (emit es s) = trace s @ es"
  by (simp add: emit_def)

lemma first_call_batch:
  "batches (first_call w config c s) = batches s @ [UploadFiles w (distFolder c) (destFolder c) (distFiles c)]"
  by (simp add: first_call_def)

lemma second_call_batch:
  "batches (second_call w config c n s)
   = batches s @ [UploadFiles w (distStaticFolder c) (destFolder c @ ''/static'') (distStaticFiles c)]"
  by (simp add: second_call_def)

lemma not_rejected_cases:
  assumes "\<And>e. p \<noteq> Rejected e"
  obtains "p = Pending" | "p = Fulfilled"
  using assms by (cases p) auto

lemma Deploy_Checkout_cases:
  obtains
    (first_pending) ds where
      "Deploy_Checkout w config c sched s = (delivers w ds (first_call w config c s), Never)"
      "outer (length (batches s)) (delivers w ds (first_call w config c s)) = Pending"
  | (second_pending) ds1 ds2 where
      "outer (length (batches s)) (delivers w ds1 (first_call w config c s)) = Fulfilled"
      "Deploy_Checkout w config c sched s =
         (delivers w ds2 (second_call w config c (length (batches s))
            (delivers w ds1 (first_call w config c s))), Never)"
      "outer (length (batches s) + 1)
         (delivers w ds2 (second_call w config c (length (batches s))
            (delivers w ds1 (first_call w config c s)))) = Pending"
  | (both_fulfilled) ds1 ds2 where
      "outer (length (batches s)) (delivers w ds1 (first_call w config c s)) = Fulfilled"
      "Deploy_Checkout w config c sched s =
         (emit [Awaited (length (batches s) + 1) Fulfilled]
            (delivers w ds2 (second_call w config c (length (batches s))
               (delivers w ds1 (first_call w config c s)))), Resolves ())"
      "outer (length (batches s) + 1)
         (delivers w ds2 (second_call w config c (length (batches s))
            (delivers w ds1 (first_call w config c s)))) = Fulfilled"
proof -
  define n where "n = length (batches s)"
  define s2 where "s2 = first_call w config c s"
  obtain sched3 s3 where a1: "await w n sched s2 = (sched3, s3)" by (cases "await w n sched s2")
  from await_decomp [OF a1] obtain ds1 where ds1: "s3 = delivers w ds1 s2" by blast
  have n2: "n < length (batches s2)" "batches s2 ! n = UploadFiles w (distFolder c) (destFolder c) (distFiles c)"
    by (simp_all add: s2_def n_def first_call_batch)
  have nr1: "\<And>e. outer n s3 \<noteq> Rejected e"
    unfolding ds1 using n2 by (rule batch_never_rejects)
  define s4 where "s4 = second_call w config c n s3"
  obtain sched5 s5 where a2: "await w (n + 1) sched3 s4 = (sched5, s5)"
    by (cases "await w (n + 1) sched3 s4")
  from await_decomp [OF a2] obtain ds2 where ds2: "s5 = delivers w ds2 s4" by blast
  have n4: "n + 1 < length (batches s4)"
    "batches s4 ! (n + 1) = UploadFiles w (distStaticFolder c) (destFolder c @ ''/static'') (distStaticFiles c)"
    by (simp_all add: s4_def ds1 s2_def n_def first_call_batch second_call_batch nth_append)
  have nr2: "\<And>e. outer (n + 1) s5 \<noteq> Rejected e"
    unfolding ds2 using n4 by (rule batch_never_rejects)
  have unfold: "Deploy_Checkout w config c sched s =
     (case outer n s3 of
        Pending \<Rightarrow> (s3, Never)
      | Rejected ex \<Rightarrow> deploy_failed ex (emit [Awaited n (Rejected ex)] s3)
      | Fulfilled \<Rightarrow>
          (case outer (n + 1) s5 of
             Pending \<Rightarrow> (s5, Never)
           | Rejected ex \<Rightarrow> deploy_failed ex (emit [Awaited (n + 1) (Rejected ex)] s5)
           | Fulfilled \<Rightarrow> (emit [Awaited (n + 1) Fulfilled] s5, Resolves ())))"
    using a1 a2 [unfolded s4_def]
    by (simp add: Deploy_Checkout_def Let_def n_def [symmetric] s2_def [symmetric]
        split: promise.splits)
  from nr1 show thesis
  proof (cases rule: not_rejected_cases)
    case 1
    then show thesis
      using first_pending [of ds1] unfold by (simp add: ds1 s2_def n_def)
  next
    case 2
    from nr2 show thesis
    proof (cases rule: not_rejected_cases)
      case 1
      then show thesis
        using second_pending [of ds1 ds2] unfold \<open>outer n s3 = Fulfilled\<close>
        by (simp add: ds1 ds2 s2_def s4_def n_def)
    next
      case 2
      then show thesis
        using both_fulfilled [of ds1 ds2] unfold \<open>outer n s3 = Fulfilled\<close>
        by (simp add: ds1 ds2 s2_def s4_def n_def)
    qed
  qed
qed

lemma Deploy_Checkout_fair:
  assumes "sched = a @ b"
    and "covers (length (batches s)) (length (filter includes_dot (distFiles c))) a"
    and "covers (length (batches s) + 1) (length (filter includes_dot (distStaticFiles c))) b"
  shows "snd (Deploy_Checkout w config c sched s) = Resolves ()"
proof -
  define n where "n = length (batches s)"
  define s2 where "s2 = first_call w config c s"
  have n2: "n < length (batches s2)" "batches s2 ! n = UploadFiles w (distFolder c) (destFolder c) (distFiles c)"
    by (simp_all add: s2_def n_def first_call_batch)
  have "outer n (delivers w a s2) = Fulfilled"
    using n2 assms(2) unfolding n_def [symmetric] by (rule fresh_batch_settles)
  then have "settled (outer n (delivers w a s2))" by (simp add: settled_def)
  from await_prefix [OF this, of b] obtain a1 a2 where
    a: "a = a1 @ a2" "await w n (a @ b) s2 = (a2 @ b, delivers w a1 s2)"
    "settled (outer n (delivers w a1 s2))" by blast
  define s3 where "s3 = delivers w a1 s2"
  have "\<And>e. outer n s3 \<noteq> Rejected e"
    unfolding s3_def using n2 by (rule batch_never_rejects)
  with a(3) have f1: "outer n s3 = Fulfilled"
    by (cases "outer n s3") (simp_all add: settled_def s3_def)
  define s4 where "s4 = second_call w config c n s3"
  have n4: "n + 1 < length (batches s4)"
    "batches s4 ! (n + 1) = UploadFiles w (distStaticFolder c) (destFolder c @ ''/static'') (distStaticFiles c)"
    by (simp_all add: s4_def s3_def s2_def n_def first_call_batch second_call_batch nth_append)
  have cov: "covers (n + 1) (length (filter includes_dot (distStaticFiles c))) (a2 @ b)"
    using assms(3) unfolding n_def by (rule covers_append)
  have "outer (n + 1) (delivers w (a2 @ b) s4) = Fulfilled"
    using n4 cov by (rule fresh_batch_settles)
  then have "settled (outer (n + 1) (delivers w (a2 @ b) s4))" by (simp add: settled_def)
  from await_prefix [OF this, of "[]"] obtain b1 b2 where
    b: "await w (n + 1) (a2 @ b) s4 = (b2, delivers w b1 s4)"
    "settled (outer (n + 1) (delivers w b1 s4))" by auto
  have "\<And>e. outer (n + 1) (delivers w b1 s4) \<noteq> Rejected e"
    using n4 by (rule batch_never_rejects)
  with b(2) have f2: "outer (n + 1) (delivers w b1 s4) = Fulfilled"
    by (cases "outer (n + 1) (delivers w b1 s4)") (simp_all add: settled_def)
  show ?thesis
    using a(2) [folded s3_def] b(1) [unfolded s4_def] f1 f2 [unfolded s4_def]
    by (simp add: Deploy_Checkout_def Let_def assms(1) n_def [symmetric] s2_def [symmetric])
qed

section \<open>The start of the script\<close>

lemma deploy_usage:
  assumes "length (argv w) \<le> 2"
  shows "deploy w sched = (\<lparr>trace = header @ usage, batches = []\<rparr>, Returned)"
  using assms by (simp add: deploy_def argv2_def Let_def emit_def initial_def)

lemma null_credentials: "missing_credentials JNull = Inl ''TypeError''"
  by (simp add: missing_credentials_def get_member_def)

lemma credentials_decided: "config \<noteq> JNull \<Longrightarrow> \<exists>b. missing_credentials config = Inr b"
  by (cases config) (auto simp: missing_credentials_def get_member_def)

lemma object_credentials:
  "missing_credentials (JObj ms) =
     Inr (\<not> truthy (map_of (rev ms) ''WEBDAV_STOREHASH'')
          \<or> \<not> truthy (map_of (rev ms) ''WEBDAV_USERNAME'')
          \<or> \<not> truthy (map_of (rev ms) ''WEBDAV_PASSWORD''))"
  by (simp add: missing_credentials_def get_member_def)

lemma deploy_catch:
  assumes "argv2 w = Some env" "env \<noteq> []"
    and "require w (path_join (dirname w) (env_file env)) = Inl ex
         \<or> require w (path_join (dirname w) (env_file env)) = Inr JNull"
  shows "deploy w sched =
    (\<lparr>trace = header @
        [Require (path_join (dirname w) (env_file env)),
         ConsoleLog (''Missing env.'' @ env @ ''.json file.''),
         ConsoleLog ''A sample file was created for you, please fill out the storefront WebDAV credentials and try again.'',
         WriteFileSync (path_join (dirname w) (env_file env)) (JSON_stringify sampleFile)
           (writeFileSync w (path_join (dirname w) (env_file env)) (JSON_stringify sampleFile))],
      batches = []\<rparr>,
     case writeFileSync w (path_join (dirname w) (env_file env)) (JSON_stringify sampleFile) of
       None \<Rightarrow> Returned | Some e \<Rightarrow> Threw e)"
  using assms
  by (auto simp: deploy_def Let_def emit_def initial_def catch_config_def null_credentials
      split: option.splits)

lemma deploy_incomplete:
  assumes "argv2 w = Some env" "env \<noteq> []"
    and "require w (path_join (dirname w) (env_file env)) = Inr config"
    and "missing_credentials config = Inr True"
  shows "deploy w sched =
    (\<lparr>trace = header @ Require (path_join (dirname w) (env_file env))
               # missing_credentials_message env,
      batches = []\<rparr>, Returned)"
  using assms by (simp add: deploy_def Let_def emit_def initial_def)

lemma deploy_build_fails:
  assumes "argv2 w = Some env" "env \<noteq> []"
    and "require w (path_join (dirname w) (env_file env)) = Inr config"
    and "missing_credentials config = Inr False"
    and "execa w ''npm'' [''run'', ''build''] = Some m"
  shows "deploy w sched =
    (\<lparr>trace = header @ [Require (path_join (dirname w) (env_file env)),
        TaskOutput ''Building...'', Execa ''npm'' [''run'', ''build''], TaskTitle ''Build failed''],
      batches = []\<rparr>, RunRejected m)"
  using assms by (simp add: deploy_def Let_def emit_def initial_def tasks_run_def Build_Checkout_def)

lemma sandbox_credentials: "missing_credentials sandbox_config = Inr False"
  by (simp add: missing_credentials_def sandbox_config_def get_member_def)

lemma sampleFile_text:
  "JSON_stringify sampleFile =
     ''{'' @ [CHR 0x0A]
     @ ''  '' @ quoted ''WEBDAV_STOREHASH'' @ '': '' @ quoted [] @ '','' @ [CHR 0x0A]
     @ ''  '' @ quoted ''WEBDAV_USERNAME'' @ '': '' @ quoted [] @ '','' @ [CHR 0x0A]
     @ ''  '' @ quoted ''WEBDAV_PASSWORD'' @ '': '' @ quoted [] @ [CHR 0x0A]
     @ ''}''"
  by (simp add: JSON_stringify_def sampleFile_def quoted_def)

text \<open>
  C9. Started with no environment argument, the script clears the console, prints its
  header and the usage message \<^verbatim>\<open>Please pass an environment (sandbox, prod) or use the
  npm run commands\<close>, and returns: it ends by \<^verbatim>\<open>return\<close>, not by an exception, and the
  whole run is console output, with no configuration load, no build and no remote
  operation.
\<close>

theorem no_argument_prints_usage:
  assumes "length (argv w) \<le> 2"
  shows "deploy w sched =
           (\<lparr>trace =
               [ConsoleClear,
                ConsoleLog ''---------------------------------------'',
                ConsoleLog ''Automated Custom Checkout Deployment'',
                ConsoleLog ''Builds and deploys custom checkout to a versioned folder on WebDAV.'',
                ConsoleLog ''---------------------------------------'',
                ConsoleLog [],
                ConsoleLog ''Please pass an environment (sandbox, prod) or use the npm run commands''],
             batches = []\<rparr>, Returned)
       \<and> list_all is_console (trace (fst (deploy w sched)))"
  using deploy_usage [OF assms] by (simp add: header_def usage_def)

theorem no_argument_prints_usage_witness:
  "length (argv no_argument) \<le> 2
   \<and> snd (deploy no_argument []) = Returned
   \<and> last (trace (fst (deploy no_argument [])))
       = ConsoleLog ''Please pass an environment (sandbox, prod) or use the npm run commands''
   \<and> list_all is_console (trace (fst (deploy no_argument [])))"
proof -
  have h: "length (argv no_argument) \<le> 2"
    by (simp add: no_argument_def sandbox_def)
  from no_argument_prints_usage [OF h, of "[]"] h show ?thesis by simp
qed

text \<open>
  C6, as stated, fails: the script is started for the environment \<^verbatim>\<open>x/y\<close>, whose
  configuration file is missing, and \<^verbatim>\<open>fs.writeFileSync\<close> cannot create the file
  (there is no directory \<^verbatim>\<open>env.x\<close>). The one call that writes a file throws, so no
  template is written, and the script ends with that exception.
\<close>

theorem missing_config_no_template_counterexample:
  "argv2 no_directory = Some ''x/y''
   \<and> require no_directory (path_join (dirname no_directory) (env_file ''x/y'')) = Inl ''Cannot find module''
   \<and> snd (deploy no_directory []) = Threw ''ENOENT''
   \<and> filter side_effect (trace (fst (deploy no_directory [])))
       = [WriteFileSync ''/repo/scripts/../env.x/y.json'' (JSON_stringify sampleFile) (Some ''ENOENT'')]"
  by (simp add: deploy_def Let_def emit_def initial_def no_directory_def sandbox_def argv2_def
      header_def catch_config_def path_join_def env_file_def)

text \<open>
  C6, amended. When the configuration file of the environment cannot be loaded, the
  script reports it and calls \<^verbatim>\<open>fs.writeFileSync\<close> for the path of that file with the
  template: an object with the three keys \<^verbatim>\<open>WEBDAV_STOREHASH\<close>, \<^verbatim>\<open>WEBDAV_USERNAME\<close> and
  \<^verbatim>\<open>WEBDAV_PASSWORD\<close>, each with the empty string as its value. When the file can be
  written, the template is written and the script returns. When the call throws,
  nothing is written and the script ends with the exception. No build is started in
  either case.
\<close>

theorem missing_config_writes_template:
  assumes "argv2 w = Some env" and "env \<noteq> []"
    and "require w (path_join (dirname w) (env_file env)) = Inl ex"
  shows "(\<forall>r. writeFileSync w (path_join (dirname w) (env_file env))
                (''{'' @ [CHR 0x0A]
                 @ ''  '' @ quoted ''WEBDAV_STOREHASH'' @ '': '' @ quoted [] @ '','' @ [CHR 0x0A]
                 @ ''  '' @ quoted ''WEBDAV_USERNAME'' @ '': '' @ quoted [] @ '','' @ [CHR 0x0A]
                 @ ''  '' @ quoted ''WEBDAV_PASSWORD'' @ '': '' @ quoted [] @ [CHR 0x0A]
                 @ ''}'') = r \<longrightarrow>
           deploy w sched =
             (\<lparr>trace = header @
                 [Require (path_join (dirname w) (env_file env)),
                  ConsoleLog (''Missing env.'' @ env @ ''.json file.''),
                  ConsoleLog ''A sample file was created for you, please fill out the storefront WebDAV credentials and try again.'',
                  WriteFileSync (path_join (dirname w) (env_file env))
                    (''{'' @ [CHR 0x0A]
                     @ ''  '' @ quoted ''WEBDAV_STOREHASH'' @ '': '' @ quoted [] @ '','' @ [CHR 0x0A]
                     @ ''  '' @ quoted ''WEBDAV_USERNAME'' @ '': '' @ quoted [] @ '','' @ [CHR 0x0A]
                     @ ''  '' @ quoted ''WEBDAV_PASSWORD'' @ '': '' @ quoted [] @ [CHR 0x0A]
                     @ ''}'') r],
               batches = []\<rparr>,
              case r of None \<Rightarrow> Returned | Some e \<Rightarrow> Threw e))
       \<and> Execa ''npm'' [''run'', ''build''] \<notin> set (trace (fst (deploy w sched)))"
proof -
  have d: "deploy w sched =
    (\<lparr>trace = header @
        [Require (path_join (dirname w) (env_file env)),
         ConsoleLog (''Missing env.'' @ env @ ''.json file.''),
         ConsoleLog ''A sample file was created for you, please fill out the storefront WebDAV credentials and try again.'',
         WriteFileSync (path_join (dirname w) (env_file env)) (JSON_stringify sampleFile)
           (writeFileSync w (path_join (dirname w) (env_file env)) (JSON_stringify sampleFile))],
      batches = []\<rparr>,
     case writeFileSync w (path_join (dirname w) (env_file env)) (JSON_stringify sampleFile) of
       None \<Rightarrow> Returned | Some e \<Rightarrow> Threw e)"
    using assms(1,2) by (rule deploy_catch) (simp add: assms(3))
  have "Execa ''npm'' [''run'', ''build''] \<notin> set (trace (fst (deploy w sched)))"
    by (simp add: d header_def)
  moreover have "\<forall>r. writeFileSync w (path_join (dirname w) (env_file env)) (JSON_stringify sampleFile) = r \<longrightarrow>
      deploy w sched =
        (\<lparr>trace = header @
            [Require (path_join (dirname w) (env_file env)),
             ConsoleLog (''Missing env.'' @ env @ ''.json file.''),
             ConsoleLog ''A sample file was created for you, please fill out the storefront WebDAV credentials and try again.'',
             WriteFileSync (path_join (dirname w) (env_file env)) (JSON_stringify sampleFile) r],
          batches = []\<rparr>,
         case r of None \<Rightarrow> Returned | Some e \<Rightarrow> Threw e)"
    using d by blast
  ultimately show ?thesis
    unfolding sampleFile_text by blast
qed

theorem missing_config_writes_template_witness:
  "argv2 no_config = Some ''sandbox''
   \<and> require no_config (path_join (dirname no_config) (env_file ''sandbox'')) = Inl ''Cannot find module''
   \<and> writeFileSync no_config ''/repo/scripts/../env.sandbox.json'' (JSON_stringify sampleFile) = None
   \<and> snd (deploy no_config []) = Returned
   \<and> WriteFileSync ''/repo/scripts/../env.sandbox.json'' (JSON_stringify sampleFile) None
       \<in> set (trace (fst (deploy no_config [])))
   \<and> Execa ''npm'' [''run'', ''build''] \<notin> set (trace (fst (deploy no_config [])))
   \<and> argv2 no_directory = Some ''x/y''
   \<and> require no_directory (path_join (dirname no_directory) (env_file ''x/y'')) = Inl ''Cannot find module''
   \<and> writeFileSync no_directory ''/repo/scripts/../env.x/y.json'' (JSON_stringify sampleFile)
       = Some ''ENOENT''
   \<and> snd (deploy no_directory []) = Threw ''ENOENT''
   \<and> WriteFileSync ''/repo/scripts/../env.x/y.json'' (JSON_stringify sampleFile) (Some ''ENOENT'')
       \<in> set (trace (fst (deploy no_directory [])))
   \<and> Execa ''npm'' [''run'', ''build''] \<notin> set (trace (fst (deploy no_directory [])))"
proof -
  have h1: "argv2 no_config = Some ''sandbox''"
    by (simp add: no_config_def sandbox_def argv2_def)
  have h2: "''sandbox'' \<noteq> []" by simp
  have h3: "require no_config (path_join (dirname no_config) (env_file ''sandbox'')) = Inl ''Cannot find module''"
    by (simp add: no_config_def)
  have p: "path_join (dirname no_config) (env_file ''sandbox'') = ''/repo/scripts/../env.sandbox.json''"
    by (simp add: no_config_def sandbox_def path_join_def env_file_def)
  have h4: "writeFileSync no_config ''/repo/scripts/../env.sandbox.json'' d = None" for d
    by (simp add: no_config_def sandbox_def)
  have x1: "argv2 no_directory = Some ''x/y''"
    by (simp add: no_directory_def sandbox_def argv2_def)
  have x2: "''x/y'' \<noteq> []" by simp
  have x3: "require no_directory (path_join (dirname no_directory) (env_file ''x/y'')) = Inl ''Cannot find module''"
    by (simp add: no_directory_def)
  have q: "path_join (dirname no_directory) (env_file ''x/y'') = ''/repo/scripts/../env.x/y.json''"
    by (simp add: no_directory_def sandbox_def path_join_def env_file_def)
  have x4: "writeFileSync no_directory ''/repo/scripts/../env.x/y.json'' d = Some ''ENOENT''" for d
    by (simp add: no_directory_def sandbox_def)
  have a: "snd (deploy no_config []) = Returned
      \<and> WriteFileSync ''/repo/scripts/../env.sandbox.json'' (JSON_stringify sampleFile) None
           \<in> set (trace (fst (deploy no_config [])))
      \<and> Execa ''npm'' [''run'', ''build''] \<notin> set (trace (fst (deploy no_config [])))"
    using missing_config_writes_template [OF h1 h2 h3, of "[]"] h4
    by (simp add: p sampleFile_text header_def)
  have b: "snd (deploy no_directory []) = Threw ''ENOENT''
      \<and> WriteFileSync ''/repo/scripts/../env.x/y.json'' (JSON_stringify sampleFile) (Some ''ENOENT'')
           \<in> set (trace (fst (deploy no_directory [])))
      \<and> Execa ''npm'' [''run'', ''build''] \<notin> set (trace (fst (deploy no_directory [])))"
    using missing_config_writes_template [OF x1 x2 x3, of "[]"] x4
    by (simp add: q sampleFile_text header_def)
  from a b h1 h3 h4 x1 x3 x4 show ?thesis by blast
qed

text \<open>
  C5, as stated, fails: in a run whose configuration file is missing, a file is
  written (the template).
\<close>

theorem config_error_no_side_effect_counterexample:
  "argv2 no_config = Some ''sandbox''
   \<and> require no_config (path_join (dirname no_config) (env_file ''sandbox'')) = Inl ''Cannot find module''
   \<and> snd (deploy no_config []) = Returned
   \<and> filter side_effect (trace (fst (deploy no_config [])))
       = [WriteFileSync ''/repo/scripts/../env.sandbox.json'' (JSON_stringify sampleFile) None]"
  by (simp add: deploy_def Let_def emit_def initial_def no_config_def sandbox_def argv2_def
      header_def catch_config_def path_join_def env_file_def)

text \<open>
  C5, amended. The configuration is incomplete when the file loads as a value other
  than \<^verbatim>\<open>null\<close> in which one of the three credentials is missing or empty: the script
  then prints that the file is missing WebDAV credentials and returns with no side
  effect. When the file cannot be loaded, or holds \<^verbatim>\<open>null\<close> (reading a credential of
  it throws), the \<^verbatim>\<open>catch\<close> block runs: the script prints that the file is missing,
  and the one thing it does beside console output is the call of \<^verbatim>\<open>fs.writeFileSync\<close>
  for the template. When that call succeeds the script returns after this one side
  effect; when it throws, nothing is written and the script ends with the exception.
  In all these runs no build is started and no remote operation is performed. A value
  other than \<^verbatim>\<open>null\<close> is either incomplete or complete, so these are all the runs with
  a configuration error.
\<close>

theorem config_error_effects:
  assumes "argv2 w = Some env" and "env \<noteq> []"
  shows "(require w (path_join (dirname w) (env_file env)) = Inr config
            \<and> missing_credentials config = Inr True \<longrightarrow>
          deploy w sched =
            (\<lparr>trace = header @
                [Require (path_join (dirname w) (env_file env)),
                 ConsoleLog (''The env.'' @ env @ ''.json file is missing WebDAV credentials.''
                             @ [CHR 0x0A]
                             @ ''Please add the credentials to the file and try again.'')],
              batches = []\<rparr>, Returned)
          \<and> filter side_effect (trace (fst (deploy w sched))) = [])
       \<and> (require w (path_join (dirname w) (env_file env)) = Inl ex
            \<or> require w (path_join (dirname w) (env_file env)) = Inr JNull \<longrightarrow>
          ConsoleLog (''Missing env.'' @ env @ ''.json file.'') \<in> set (trace (fst (deploy w sched)))
          \<and> filter side_effect (trace (fst (deploy w sched)))
              = [WriteFileSync (path_join (dirname w) (env_file env)) (JSON_stringify sampleFile)
                   (writeFileSync w (path_join (dirname w) (env_file env)) (JSON_stringify sampleFile))]
          \<and> snd (deploy w sched)
              = (case writeFileSync w (path_join (dirname w) (env_file env)) (JSON_stringify sampleFile) of
                   None \<Rightarrow> Returned | Some e \<Rightarrow> Threw e))
       \<and> (config \<noteq> JNull \<longrightarrow>
            missing_credentials config = Inr True \<or> missing_credentials config = Inr False)
       \<and> (\<forall>ms. missing_credentials (JObj ms) =
            Inr (\<not> truthy (map_of (rev ms) ''WEBDAV_STOREHASH'')
                 \<or> \<not> truthy (map_of (rev ms) ''WEBDAV_USERNAME'')
                 \<or> \<not> truthy (map_of (rev ms) ''WEBDAV_PASSWORD'')))"
proof (intro conjI impI allI)
  assume a: "require w (path_join (dirname w) (env_file env)) = Inr config
             \<and> missing_credentials config = Inr True"
  have "deploy w sched =
            (\<lparr>trace = header @ Require (path_join (dirname w) (env_file env))
                       # missing_credentials_message env,
              batches = []\<rparr>, Returned)"
    using assms a by (blast intro: deploy_incomplete)
  then show d: "deploy w sched =
            (\<lparr>trace = header @
                [Require (path_join (dirname w) (env_file env)),
                 ConsoleLog (''The env.'' @ env @ ''.json file is missing WebDAV credentials.''
                             @ [CHR 0x0A]
                             @ ''Please add the credentials to the file and try again.'')],
              batches = []\<rparr>, Returned)"
    by (simp add: missing_credentials_message_def)
  show "filter side_effect (trace (fst (deploy w sched))) = []"
    by (simp add: d header_def)
next
  assume a: "require w (path_join (dirname w) (env_file env)) = Inl ex
            \<or> require w (path_join (dirname w) (env_file env)) = Inr JNull"
  note d = deploy_catch [OF assms a, of sched]
  show "ConsoleLog (''Missing env.'' @ env @ ''.json file.'') \<in> set (trace (fst (deploy w sched)))"
    by (simp add: d)
  show "filter side_effect (trace (fst (deploy w sched)))
          = [WriteFileSync (path_join (dirname w) (env_file env)) (JSON_stringify sampleFile)
               (writeFileSync w (path_join (dirname w) (env_file env)) (JSON_stringify sampleFile))]"
    by (simp add: d header_def)
  show "snd (deploy w sched)
          = (case writeFileSync w (path_join (dirname w) (env_file env)) (JSON_stringify sampleFile) of
               None \<Rightarrow> Returned | Some e \<Rightarrow> Threw e)"
    by (simp add: d)
next
  assume "config \<noteq> JNull"
  from credentials_decided [OF this]
  show "missing_credentials config = Inr True \<or> missing_credentials config = Inr False"
    by auto
next
  fix ms
  show "missing_credentials (JObj ms) =
            Inr (\<not> truthy (map_of (rev ms) ''WEBDAV_STOREHASH'')
                 \<or> \<not> truthy (map_of (rev ms) ''WEBDAV_USERNAME'')
                 \<or> \<not> truthy (map_of (rev ms) ''WEBDAV_PASSWORD''))"
    by (rule object_credentials)
qed

theorem config_error_effects_witness:
  "argv2 incomplete = Some ''sandbox''
   \<and> require incomplete (path_join (dirname incomplete) (env_file ''sandbox''))
       = Inr (JObj [(''WEBDAV_STOREHASH'', JStr ''abc''),
                    (''WEBDAV_USERNAME'', JStr ''user''), (''WEBDAV_PASSWORD'', JStr [])])
   \<and> missing_credentials (JObj [(''WEBDAV_STOREHASH'', JStr ''abc''),
        (''WEBDAV_USERNAME'', JStr ''user''), (''WEBDAV_PASSWORD'', JStr [])]) = Inr True
   \<and> snd (deploy incomplete []) = Returned
   \<and> filter side_effect (trace (fst (deploy incomplete []))) = []
   \<and> argv2 no_config = Some ''sandbox''
   \<and> require no_config (path_join (dirname no_config) (env_file ''sandbox'')) = Inl ''Cannot find module''
   \<and> snd (deploy no_config []) = Returned
   \<and> filter side_effect (trace (fst (deploy no_config [])))
       = [WriteFileSync ''/repo/scripts/../env.sandbox.json'' (JSON_stringify sampleFile) None]
   \<and> argv2 null_config = Some ''sandbox''
   \<and> require null_config (path_join (dirname null_config) (env_file ''sandbox'')) = Inr JNull
   \<and> snd (deploy null_config []) = Returned
   \<and> filter side_effect (trace (fst (deploy null_config [])))
       = [WriteFileSync ''/repo/scripts/../env.sandbox.json'' (JSON_stringify sampleFile) None]
   \<and> argv2 no_directory = Some ''x/y''
   \<and> require no_directory (path_join (dirname no_directory) (env_file ''x/y'')) = Inl ''Cannot find module''
   \<and> snd (deploy no_directory []) = Threw ''ENOENT''
   \<and> filter side_effect (trace (fst (deploy no_directory [])))
       = [WriteFileSync ''/repo/scripts/../env.x/y.json'' (JSON_stringify sampleFile) (Some ''ENOENT'')]"
proof -
  define config where "config = JObj [(''WEBDAV_STOREHASH'', JStr ''abc''),
        (''WEBDAV_USERNAME'', JStr ''user''), (''WEBDAV_PASSWORD'', JStr [])]"
  have i1: "argv2 incomplete = Some ''sandbox''"
    by (simp add: incomplete_def sandbox_def argv2_def)
  have i2: "require incomplete (path_join (dirname incomplete) (env_file ''sandbox'')) = Inr config"
    by (simp add: incomplete_def config_def)
  have i3: "missing_credentials config = Inr True"
    by (simp add: missing_credentials_def get_member_def config_def)
  have i4: "config \<noteq> JNull" by (simp add: config_def)
  have n1: "argv2 no_config = Some ''sandbox''"
    by (simp add: no_config_def sandbox_def argv2_def)
  have n2: "require no_config (path_join (dirname no_config) (env_file ''sandbox'')) = Inl ''Cannot find module''"
    by (simp add: no_config_def)
  have n3: "writeFileSync no_config p d = None" for p d
    by (simp add: no_config_def sandbox_def)
  have p: "path_join (dirname no_config) (env_file ''sandbox'') = ''/repo/scripts/../env.sandbox.json''"
    by (simp add: no_config_def sandbox_def path_join_def env_file_def)
  have u1: "argv2 null_config = Some ''sandbox''"
    by (simp add: null_config_def sandbox_def argv2_def)
  have u2: "require null_config (path_join (dirname null_config) (env_file ''sandbox'')) = Inr JNull"
    by (simp add: null_config_def)
  have u3: "writeFileSync null_config p d = None" for p d
    by (simp add: null_config_def sandbox_def)
  have q: "path_join (dirname null_config) (env_file ''sandbox'') = ''/repo/scripts/../env.sandbox.json''"
    by (simp add: null_config_def sandbox_def path_join_def env_file_def)
  have x1: "argv2 no_directory = Some ''x/y''"
    by (simp add: no_directory_def sandbox_def argv2_def)
  have x2: "require no_directory (path_join (dirname no_directory) (env_file ''x/y'')) = Inl ''Cannot find module''"
    by (simp add: no_directory_def)
  have r: "path_join (dirname no_directory) (env_file ''x/y'') = ''/repo/scripts/../env.x/y.json''"
    by (simp add: no_directory_def sandbox_def path_join_def env_file_def)
  have x3: "writeFileSync no_directory ''/repo/scripts/../env.x/y.json'' d = Some ''ENOENT''" for d
    by (simp add: no_directory_def sandbox_def)
  have h: "''sandbox'' \<noteq> []" and h': "''x/y'' \<noteq> []" by simp_all
  have a: "snd (deploy incomplete []) = Returned
      \<and> filter side_effect (trace (fst (deploy incomplete []))) = []"
    using config_error_effects [OF i1 h, of config "[]" "''Cannot find module''"] i2 i3
    by (simp add: header_def)
  have b: "snd (deploy no_config []) = Returned
      \<and> filter side_effect (trace (fst (deploy no_config [])))
          = [WriteFileSync ''/repo/scripts/../env.sandbox.json'' (JSON_stringify sampleFile) None]"
    using config_error_effects [OF n1 h, of config "[]" "''Cannot find module''"] n2 n3
    by (simp add: p header_def)
  have c: "snd (deploy null_config []) = Returned
      \<and> filter side_effect (trace (fst (deploy null_config [])))
          = [WriteFileSync ''/repo/scripts/../env.sandbox.json'' (JSON_stringify sampleFile) None]"
    using config_error_effects [OF u1 h, of config "[]" "''Cannot find module''"] u2 u3
    by (simp add: q header_def)
  have d: "snd (deploy no_directory []) = Threw ''ENOENT''
      \<and> filter side_effect (trace (fst (deploy no_directory [])))
          = [WriteFileSync ''/repo/scripts/../env.x/y.json'' (JSON_stringify sampleFile) (Some ''ENOENT'')]"
    using config_error_effects [OF x1 h', of config "[]" "''Cannot find module''"] x2 x3
    by (simp add: r header_def)
  from a b c d i1 i2 i3 n1 n2 u1 u2 x1 x2 show ?thesis
    unfolding config_def by blast
qed

text \<open>
  C7. When the build exits with a status other than zero, the run is rejected with the
  message of the build: the run ends there, so no remote directory is created, no
  directory is listed, and \<^verbatim>\<open>UploadFiles\<close> is never called.
\<close>

theorem build_failure_stops_run:
  assumes "argv2 w = Some env" and "env \<noteq> []"
    and "require w (path_join (dirname w) (env_file env)) = Inr config"
    and "missing_credentials config = Inr False"
    and "execa w ''npm'' [''run'', ''build''] = Some m"
  shows "deploy w sched =
           (\<lparr>trace = header @
               [Require (path_join (dirname w) (env_file env)),
                TaskOutput ''Building...'',
                Execa ''npm'' [''run'', ''build''],
                TaskTitle ''Build failed''],
             batches = []\<rparr>, RunRejected m)
       \<and> filter is_remote (trace (fst (deploy w sched))) = []
       \<and> filter is_control (trace (fst (deploy w sched))) = []
       \<and> filter is_ReadFile (trace (fst (deploy w sched))) = []"
  using deploy_build_fails [OF assms] by (simp add: header_def)

theorem build_failure_stops_run_witness:
  "argv2 build_fails = Some ''sandbox''
   \<and> require build_fails (path_join (dirname build_fails) (env_file ''sandbox'')) = Inr sandbox_config
   \<and> missing_credentials sandbox_config = Inr False
   \<and> execa build_fails ''npm'' [''run'', ''build''] = Some ''Command failed with exit code 1''
   \<and> snd (deploy build_fails [(0, 0), (0, 1), (1, 0)]) = RunRejected ''Command failed with exit code 1''
   \<and> filter is_remote (trace (fst (deploy build_fails [(0, 0), (0, 1), (1, 0)]))) = []"
proof -
  have h1: "argv2 build_fails = Some ''sandbox''"
    by (simp add: build_fails_def sandbox_def argv2_def)
  have h2: "''sandbox'' \<noteq> []" by simp
  have h3: "require build_fails (path_join (dirname build_fails) (env_file ''sandbox'')) = Inr sandbox_config"
    by (simp add: build_fails_def sandbox_def)
  have h5: "execa build_fails ''npm'' [''run'', ''build''] = Some ''Command failed with exit code 1''"
    by (simp add: build_fails_def)
  from build_failure_stops_run [OF h1 h2 h3 sandbox_credentials h5, of "[(0, 0), (0, 1), (1, 0)]"]
    h1 h3 h5 sandbox_credentials
  show ?thesis by (simp add: header_def)
qed

section \<open>Properties of a run\<close>

lemma Pre_Deploy_Setup_ok:
  assumes "mkdir w (run_dest w) = None" "mkdir w (run_dest w @ ''/static'') = None"
    and "readdir w (run_dist w) = Inr files" "readdir w (run_static w) = Inr staticFiles"
  shows "Pre_Deploy_Setup w config s =
    (emit [TaskOutput ''Creating a new versioned folder and...'',
           Mkdir (Connect config) (run_dest w),
           Mkdir (Connect config) (run_dest w @ ''/static''),
           TaskOutput ''Getting a list of files and folder to upload...'',
           Readdir (run_dist w), Readdir (run_static w)] s,
     Resolves (run_ctx w files staticFiles))"
  using assms
  by (simp add: Pre_Deploy_Setup_def Let_def run_dest_def run_dist_def run_static_def run_ctx_def
      emit_def)

lemma Pre_Deploy_Setup_Resolves:
  assumes "Pre_Deploy_Setup w config s = (s', Resolves c)"
  shows "\<exists>files staticFiles.
     mkdir w (run_dest w) = None \<and> mkdir w (run_dest w @ ''/static'') = None
     \<and> readdir w (run_dist w) = Inr files \<and> readdir w (run_static w) = Inr staticFiles
     \<and> c = run_ctx w files staticFiles"
  using assms
  by (auto simp: Pre_Deploy_Setup_def Let_def run_dest_def run_dist_def run_static_def run_ctx_def
      setup_failed_def split: option.splits sum.splits)

lemma Pre_Deploy_Setup_batches: "batches (fst (Pre_Deploy_Setup w config s)) = batches s"
  by (simp add: Pre_Deploy_Setup_def Let_def setup_failed_def split: option.splits sum.splits)

lemma Pre_Deploy_Setup_projection:
  "filter remote_or_control (trace (fst (Pre_Deploy_Setup w config s)))
   = filter remote_or_control (trace s)
     @ (if mkdir w (run_dest w) = None
        then [Mkdir (Connect config) (run_dest w), Mkdir (Connect config) (run_dest w @ ''/static'')]
        else [Mkdir (Connect config) (run_dest w)])"
  by (simp add: Pre_Deploy_Setup_def Let_def setup_failed_def run_dest_def remote_or_control_def
      split: option.splits sum.splits)

lemma delivers_projection:
  assumes "\<And>p e. \<not> P (WriteDone p e)"
  shows "filter P (trace (delivers w ds s)) = filter P (trace s)"
proof (induction ds arbitrary: s)
  case Nil
  then show ?case by simp
next
  case (Cons c ds)
  obtain k i where c: "c = (k, i)" by (cases c)
  have "filter P (trace (deliver w c s)) = filter P (trace s)"
    by (simp add: c deliver_def Let_def assms)
  with Cons show ?case by simp
qed

lemma uploader_events_projection:
  "filter remote_or_control (concat (map (uploader_events w url src dest) fs))
   = writes_of w url src dest fs"
  by (induction fs)
     (simp_all add: uploader_events_def writes_of_def remote_or_control_def split: sum.splits)

lemma uploader_events_reads:
  "length (filter is_ReadFile (concat (map (uploader_events w url src dest) fs))) = length fs"
  by (induction fs) (simp_all add: uploader_events_def split: sum.splits)

lemma call_UploadFiles_projection:
  "filter remote_or_control (trace (call_UploadFiles w url src dest files s))
   = filter remote_or_control (trace s) @ Called src dest
       # writes_of w url src dest (filter includes_dot files)"
  by (simp add: call_UploadFiles_def uploader_events_projection)
     (simp add: remote_or_control_def)

lemma roc_WriteDone: "\<not> remote_or_control (WriteDone p e)"
  by (simp add: remote_or_control_def)

lemma first_call_projection:
  "filter remote_or_control (trace (first_call w config c s))
   = filter remote_or_control (trace s) @ Called (distFolder c) (destFolder c)
       # writes_of w (Connect config) (distFolder c) (destFolder c) (filter includes_dot (distFiles c))"
  by (simp add: first_call_def call_UploadFiles_projection) (simp add: remote_or_control_def)

lemma second_call_projection:
  "filter remote_or_control (trace (second_call w config c n s))
   = filter remote_or_control (trace s) @ Awaited n Fulfilled
       # Called (distStaticFolder c) (destFolder c @ ''/static'')
       # writes_of w (Connect config) (distStaticFolder c) (destFolder c @ ''/static'')
           (filter includes_dot (distStaticFiles c))"
  by (simp add: second_call_def call_UploadFiles_projection) (simp add: remote_or_control_def)

lemma Deploy_Checkout_projection:
  fixes w config c sched s
  defines "D \<equiv> Deploy_Checkout w config c sched s"
    and "n \<equiv> length (batches s)"
    and "base \<equiv> filter remote_or_control (trace s)"
    and "one \<equiv> Called (distFolder c) (destFolder c)
       # writes_of w (Connect config) (distFolder c) (destFolder c) (filter includes_dot (distFiles c))"
    and "two \<equiv> Awaited (length (batches s)) Fulfilled
       # Called (distStaticFolder c) (destFolder c @ ''/static'')
       # writes_of w (Connect config) (distStaticFolder c) (destFolder c @ ''/static'')
           (filter includes_dot (distStaticFiles c))"
  shows "(snd D = Never \<and> filter remote_or_control (trace (fst D)) = base @ one)
       \<or> (snd D = Never \<and> filter remote_or_control (trace (fst D)) = base @ one @ two)
       \<or> (snd D = Resolves () \<and> filter remote_or_control (trace (fst D))
             = base @ one @ two @ [Awaited (n + 1) Fulfilled])"
proof (cases rule: Deploy_Checkout_cases [of w config c sched s])
  case (first_pending ds)
  then show ?thesis
    unfolding D_def base_def one_def
    by (simp add: delivers_projection [of remote_or_control, OF roc_WriteDone] first_call_projection)
next
  case (second_pending ds1 ds2)
  then show ?thesis
    unfolding D_def base_def one_def two_def
    by (simp add: delivers_projection [of remote_or_control, OF roc_WriteDone]
        first_call_projection second_call_projection)
next
  case (both_fulfilled ds1 ds2)
  then show ?thesis
    unfolding D_def base_def one_def two_def n_def
    by (simp add: delivers_projection [of remote_or_control, OF roc_WriteDone]
        first_call_projection second_call_projection)
       (simp add: remote_or_control_def)
qed

lemma Build_Checkout_projection:
  "filter remote_or_control (trace (fst (Build_Checkout w s))) = filter remote_or_control (trace s)"
  by (simp add: Build_Checkout_def Let_def remote_or_control_def split: option.splits)

lemma Build_Checkout_batches: "batches (fst (Build_Checkout w s)) = batches s"
  by (simp add: Build_Checkout_def Let_def split: option.splits)

text \<open>
  The remote operations and control points of \<^verbatim>\<open>tasks.run()\<close>, started in a state with
  none of them and no batch.
\<close>

lemma tasks_run_projection:
  fixes w config sched s
  defines "T \<equiv> tasks_run w config sched s"
    and "url \<equiv> Connect config"
  assumes base: "filter remote_or_control (trace s) = []" and nb: "batches s = []"
  shows "filter remote_or_control (trace (fst T)) = []
       \<or> (filter remote_or_control (trace (fst T)) = [Mkdir url (run_dest w)]
            \<and> mkdir w (run_dest w) \<noteq> None)
       \<or> (filter remote_or_control (trace (fst T))
             = [Mkdir url (run_dest w), Mkdir url (run_dest w @ ''/static'')]
            \<and> mkdir w (run_dest w) = None)
       \<or> (mkdir w (run_dest w) = None \<and> mkdir w (run_dest w @ ''/static'') = None
            \<and> execa w ''npm'' [''run'', ''build''] = None
            \<and> (\<exists>files staticFiles.
                  readdir w (run_dist w) = Inr files \<and> readdir w (run_static w) = Inr staticFiles)
            \<and> (\<exists>k. 3 \<le> k \<and> filter remote_or_control (trace (fst T)) = take k (upload_order w url)))"
proof -
  obtain s1 r1 where b: "Build_Checkout w s = (s1, r1)" by (cases "Build_Checkout w s")
  have s1: "filter remote_or_control (trace s1) = []" "batches s1 = []"
    using Build_Checkout_projection [of w s] Build_Checkout_batches [of w s] b base nb by simp_all
  obtain s2 r2 where p: "Pre_Deploy_Setup w config s1 = (s2, r2)"
    by (cases "Pre_Deploy_Setup w config s1")
  have s2: "filter remote_or_control (trace s2) =
      (if mkdir w (run_dest w) = None
        then [Mkdir url (run_dest w), Mkdir url (run_dest w @ ''/static'')]
        else [Mkdir url (run_dest w)])" "batches s2 = []"
    using Pre_Deploy_Setup_projection [of w config s1] Pre_Deploy_Setup_batches [of w config s1] p s1
    by (simp_all add: url_def)
  show ?thesis
  proof (cases r1)
    case (Rejects ex)
    then show ?thesis using b s1 by (simp add: T_def tasks_run_def)
  next
    case Never
    then show ?thesis using b s1 by (simp add: T_def tasks_run_def)
  next
    case (Resolves u)
    note r1 = this
    have built: "execa w ''npm'' [''run'', ''build''] = None"
      using b r1 by (simp add: Build_Checkout_def Let_def split: option.splits)
    show ?thesis
    proof (cases r2)
      case (Rejects ex)
      then show ?thesis using b p r1 s2 by (simp add: T_def tasks_run_def)
    next
      case Never
      then show ?thesis using b p r1 s2 by (simp add: T_def tasks_run_def)
    next
      case (Resolves c)
      from Pre_Deploy_Setup_Resolves [OF p [unfolded Resolves]] obtain files staticFiles where
        ok: "mkdir w (run_dest w) = None" "mkdir w (run_dest w @ ''/static'') = None"
          "readdir w (run_dist w) = Inr files" "readdir w (run_static w) = Inr staticFiles"
          "c = run_ctx w files staticFiles" by blast
      define D where "D = Deploy_Checkout w config c sched s2"
      have T: "fst T = fst D"
        using b p r1 Resolves
        by (cases D) (auto simp: T_def tasks_run_def D_def split: settle.splits)
      define one where "one = Called (run_dist w) (run_dest w)
          # writes_of w url (run_dist w) (run_dest w) (filter includes_dot files)"
      define two where "two = Awaited 0 Fulfilled
          # Called (run_static w) (run_dest w @ ''/static'')
          # writes_of w url (run_static w) (run_dest w @ ''/static'') (filter includes_dot staticFiles)"
      define mk where "mk = [Mkdir url (run_dest w), Mkdir url (run_dest w @ ''/static'')]"
      have full: "upload_order w url = mk @ one @ two @ [Awaited 1 Fulfilled]"
        by (simp add: upload_order_def mk_def one_def two_def listing_def ok)
      have "filter remote_or_control (trace (fst D)) = mk @ one
          \<or> filter remote_or_control (trace (fst D)) = mk @ one @ two
          \<or> filter remote_or_control (trace (fst D)) = mk @ one @ two @ [Awaited 1 Fulfilled]"
        using Deploy_Checkout_projection [of w config c sched s2] s2 ok
        unfolding D_def [symmetric]
        by (auto simp: run_ctx_def mk_def one_def two_def url_def)
      then have "\<exists>k. 3 \<le> k \<and> filter remote_or_control (trace (fst D)) = take k (upload_order w url)"
      proof (elim disjE)
        assume "filter remote_or_control (trace (fst D)) = mk @ one"
        then show ?thesis
          by (intro exI [of _ "length (mk @ one)"]) (simp add: full, simp add: mk_def one_def)
      next
        assume "filter remote_or_control (trace (fst D)) = mk @ one @ two"
        then show ?thesis
          by (intro exI [of _ "length (mk @ one @ two)"]) (simp add: full, simp add: mk_def one_def)
      next
        assume "filter remote_or_control (trace (fst D)) = mk @ one @ two @ [Awaited 1 Fulfilled]"
        then show ?thesis
          by (intro exI [of _ "length (upload_order w url)"]) (simp add: full, simp add: mk_def one_def)
      qed
      then show ?thesis using ok T built by auto
    qed
  qed
qed

lemma finished_projection: "filter remote_or_control (finished config ts) = []"
  by (simp add: finished_def remote_or_control_def)

lemma header_projection: "filter remote_or_control header = []"
  by (simp add: header_def remote_or_control_def)

lemma catch_config_projection:
  "filter remote_or_control (trace (fst (catch_config w env s))) = filter remote_or_control (trace s)"
  by (simp add: catch_config_def Let_def remote_or_control_def split: option.splits)

lemma initial_trace [simp]: "trace initial = []"
  by (simp add: initial_def)

lemma initial_batches [simp]: "batches initial = []"
  by (simp add: initial_def)

text \<open>
  In every run, the remote operations and control points are an initial segment of
  \<open>upload_order\<close>, and they go beyond the two \<^verbatim>\<open>mkdir\<close> only when both succeeded.
\<close>

lemma deploy_projection:
  "\<exists>url k. filter remote_or_control (trace (fst (deploy w sched))) = take k (upload_order w url)
     \<and> (2 < k \<longrightarrow> mkdir w (run_dest w) = None \<and> mkdir w (run_dest w @ ''/static'') = None
           \<and> (\<exists>env config files staticFiles.
                 argv2 w = Some env \<and> env \<noteq> []
                 \<and> require w (path_join (dirname w) (env_file env)) = Inr config
                 \<and> missing_credentials config = Inr False
                 \<and> execa w ''npm'' [''run'', ''build''] = None
                 \<and> readdir w (run_dist w) = Inr files
                 \<and> readdir w (run_static w) = Inr staticFiles))"
proof -
  have early: "filter remote_or_control (trace (fst (deploy w sched))) = [] \<Longrightarrow> ?thesis"
    by (intro exI [of _ "[]"] exI [of _ 0]) simp
  show ?thesis
  proof (cases "argv2 w")
    case None
    then show ?thesis
      by (intro early) (simp add: deploy_def Let_def header_projection usage_def remote_or_control_def)
  next
    case (Some env)
    note env = this
    show ?thesis
    proof (cases "env = []")
      case True
      then show ?thesis using env
        by (intro early) (simp add: deploy_def Let_def header_projection usage_def remote_or_control_def)
    next
      case False
      note ne = this
      define p where "p = path_join (dirname w) (env_file env)"
      show ?thesis
      proof (cases "require w p")
        case (Inl ex)
        then show ?thesis using env ne
          by (intro early)
             (simp add: deploy_def Let_def header_projection catch_config_projection remote_or_control_def
               p_def [symmetric])
      next
        case (Inr config)
        note cfg = this
        show ?thesis
        proof (cases "missing_credentials config")
          case (Inl ex)
          then show ?thesis using env ne cfg
            by (intro early)
               (simp add: deploy_def Let_def header_projection catch_config_projection remote_or_control_def
                 p_def [symmetric])
        next
          case (Inr missing)
          show ?thesis
          proof (cases missing)
            case True
            then show ?thesis using env ne cfg Inr
              by (intro early)
                 (simp add: deploy_def Let_def header_projection missing_credentials_message_def
                   remote_or_control_def p_def [symmetric])
          next
            case False
            define s1 where "s1 = emit [Require p] (emit header initial)"
            define T where "T = tasks_run w config sched s1"
            have base: "filter remote_or_control (trace s1) = []" "batches s1 = []"
              by (simp_all add: s1_def initial_def header_projection remote_or_control_def)
            have d: "filter remote_or_control (trace (fst (deploy w sched)))
                     = filter remote_or_control (trace (fst T))"
              using env ne cfg Inr False
              by (cases T)
                 (auto simp: deploy_def Let_def p_def [symmetric] s1_def [symmetric] T_def [symmetric]
                   finished_projection split: settle.splits)
            from tasks_run_projection [OF base, of w config sched]
            show ?thesis
              unfolding T_def [symmetric] d [symmetric]
            proof (elim disjE conjE exE)
              assume "filter remote_or_control (trace (fst (deploy w sched))) = []"
              then show ?thesis by (rule early)
            next
              assume "filter remote_or_control (trace (fst (deploy w sched)))
                      = [Mkdir (Connect config) (run_dest w)]"
              then show ?thesis
                by (intro exI [of _ "Connect config"] exI [of _ 1]) (simp add: upload_order_def)
            next
              assume "filter remote_or_control (trace (fst (deploy w sched)))
                      = [Mkdir (Connect config) (run_dest w), Mkdir (Connect config) (run_dest w @ ''/static'')]"
              then show ?thesis
                by (intro exI [of _ "Connect config"] exI [of _ 2]) (simp add: upload_order_def)
            next
              fix files staticFiles k
              assume "mkdir w (run_dest w) = None" "mkdir w (run_dest w @ ''/static'') = None"
                "execa w ''npm'' [''run'', ''build''] = None"
                "readdir w (run_dist w) = Inr files" "readdir w (run_static w) = Inr staticFiles"
                "filter remote_or_control (trace (fst (deploy w sched)))
                   = take k (upload_order w (Connect config))"
              moreover have "missing_credentials config = Inr False"
                using Inr False by simp
              ultimately show ?thesis
                using env ne cfg unfolding p_def by blast
            qed
          qed
        qed
      qed
    qed
  qed
qed

lemma projection_split:
  assumes "t = pre @ e # post" "P e" "filter P t = take k L"
  shows "length (filter P pre) < k \<and> length (filter P pre) < length L
       \<and> L ! length (filter P pre) = e \<and> filter P pre = take (length (filter P pre)) L"
proof -
  define j where "j = length (filter P pre)"
  have eq: "take k L = filter P pre @ e # filter P post"
    using assms by simp
  then have len: "j < length (take k L)" by (simp add: j_def)
  then have jk: "j < k" "j < length L" by simp_all
  have "take k L ! j = e" unfolding eq j_def by simp
  then have "L ! j = e" using jk by simp
  moreover have "take j (take k L) = filter P pre" unfolding eq j_def by simp
  then have "filter P pre = take j L" using jk by (simp add: min_def)
  ultimately show ?thesis using jk unfolding j_def by simp
qed

lemma writes_of_elem:
  "x \<in> set (writes_of w url src dest fs) \<Longrightarrow> \<exists>f c. x = WriteFile url (remote_path dest f) c"
  by (auto simp: writes_of_def split: sum.splits)

lemma upload_order_WriteFile:
  assumes "WriteFile url p c \<in> set (upload_order w url0)"
  shows "url = url0 \<and> (\<exists>f. p = remote_path (run_dest w) f \<or> p = remote_path (run_dest w @ ''/static'') f)"
  using assms by (auto simp: upload_order_def dest!: writes_of_elem)

lemma unique_position:
  assumes "e \<notin> set A" "e \<notin> set B" "(A @ e # B) ! j = e" "j < length (A @ e # B)"
  shows "j = length A"
proof (rule ccontr)
  assume "j \<noteq> length A"
  then consider "j < length A" | "length A < j" by linarith
  then show False
  proof cases
    case 1
    then have "A ! j = e" using assms(3) by (simp add: nth_append)
    with 1 assms(1) show False by (metis nth_mem)
  next
    case 2
    then have "B ! (j - length A - 1) = e" "j - length A - 1 < length B"
      using assms(3,4) by (auto simp: nth_append nth_Cons')
    with assms(2) show False by (metis nth_mem)
  qed
qed

lemma nth_in_take:
  assumes "i < j" "i < length L"
  shows "L ! i \<in> set (take j L)"
proof -
  have "take j L ! i = L ! i" "i < length (take j L)" using assms by simp_all
  then show ?thesis by (metis nth_mem)
qed

lemma Build_Checkout_ok:
  "execa w ''npm'' [''run'', ''build''] = None \<Longrightarrow>
   Build_Checkout w s = (emit [TaskOutput ''Building...'', Execa ''npm'' [''run'', ''build'']] s, Resolves ())"
  by (simp add: Build_Checkout_def)

lemma delivers_snoc: "delivers w (ds @ [c]) s = deliver w c (delivers w ds s)"
  by (simp add: delivers_def)

lemma deliver_trace_subset: "set (trace s) \<subseteq> set (trace (deliver w c s))"
  by (cases c) (auto simp: deliver_def Let_def)

lemma completions_of_snoc:
  "completions_of k (ds @ [(k', i)])
   = (if k' = k then completions_of k ds @ [i] else completions_of k ds)"
  by (simp add: completions_of_def)

lemma delivered_in_trace:
  assumes k: "k < length (batches s)" "batches s ! k = UploadFiles w src dest files"
    and j: "j < length (filter includes_dot files)"
    and r: "readFileSync w (local_path src (filter includes_dot files ! j)) = Inr c"
    and d: "j \<in> set (completions_of k ds)"
  shows "WriteDone (remote_path dest (filter includes_dot files ! j))
           (writeFile w (remote_path dest (filter includes_dot files ! j)))
         \<in> set (trace (delivers w ds s))"
  using d
proof (induction ds rule: rev_induct)
  case Nil
  then show ?case by (simp add: completions_of_def)
next
  case (snoc x ds)
  obtain k' i where x: "x = (k', i)" by (cases x)
  define s' where "s' = delivers w ds s"
  show ?case
  proof (cases "j \<in> set (completions_of k ds)")
    case True
    from snoc.IH [OF this] show ?thesis
      using deliver_trace_subset [of s' w x] by (auto simp: delivers_snoc s'_def)
  next
    case False
    with snoc.prems have ki: "k' = k" "i = j"
      by (auto simp: x completions_of_snoc split: if_splits)
    define B where "B = completes w (completions_of k ds) (UploadFiles w src dest files)"
    have B: "batches s' ! k = B" "k < length (batches s')"
      using k by (simp_all add: s'_def delivers_batch B_def)
    have u: "b_uploads B ! j
        = upload_after w src dest (completions_of k ds) j (filter includes_dot files ! j)"
      unfolding B_def using j by (rule uploads_after)
    have len: "length (b_uploads B) = length (filter includes_dot files)"
      by (simp add: B_def UploadFiles_uploads)
    have fl: "in_flight B j"
      using u r False j len by (simp add: in_flight_def upload_after_def)
    have "trace (deliver w (k, j) s')
        = trace s' @ [WriteDone (remote_path dest (filter includes_dot files ! j))
                        (writeFile w (remote_path dest (filter includes_dot files ! j)))]"
      using B fl u by (simp add: deliver_def Let_def B_def)
    then show ?thesis by (simp add: delivers_snoc x ki s'_def)
  qed
qed

lemma not_all_fulfilled:
  assumes "\<not> list_all (\<lambda>p. p = Fulfilled) ps" "first_rejection ps = None"
  shows "\<exists>j < length ps. ps ! j = Pending"
proof -
  from assms(1) obtain j where j: "j < length ps" "ps ! j \<noteq> Fulfilled"
    by (auto simp: list_all_length)
  have "ps ! j \<noteq> Rejected e" for e
    using first_rejection_None [OF assms(2), of e] j(1) by (metis nth_mem)
  with j show ?thesis by (cases "ps ! j") auto
qed

lemma pending_in_flight:
  assumes "b_outer (completes w cs (UploadFiles w src dest files)) = Pending"
  shows "\<exists>i. in_flight (completes w cs (UploadFiles w src dest files)) i"
proof -
  define B where "B = completes w cs (UploadFiles w src dest files)"
  have inv: "batch_inv B" unfolding B_def by (intro completes_inv UploadFiles_inv)
  have len: "length (b_uploads B) = length (filter includes_dot files)"
    by (simp add: B_def UploadFiles_uploads)
  from inv assms have "b_all B = Pending"
    unfolding B_def [symmetric] by (auto simp: batch_inv_def Let_def split: if_splits)
  with inv have "first_rejection (map u_promise (b_uploads B)) = None"
    and "\<not> list_all (\<lambda>p. p = Fulfilled) (map u_promise (b_uploads B))"
    by (simp_all add: batch_inv_def Let_def)
  from not_all_fulfilled [OF this(2,1)] obtain j where
    j: "j < length (b_uploads B)" "u_promise (b_uploads B ! j) = Pending" by auto
  have "b_uploads B ! j = upload_after w src dest cs j (filter includes_dot files ! j)"
    unfolding B_def using j(1) len by (intro uploads_after) simp
  with j(2) have "u_issued (b_uploads B ! j)"
    by (auto simp: upload_after_def split: sum.splits)
  with j have "in_flight B j" by (simp add: in_flight_def)
  then show ?thesis unfolding B_def by blast
qed

lemma settled_in_trace:
  assumes k: "k < length (batches s)" "batches s ! k = UploadFiles w src dest files"
    and f: "outer k (delivers w ds s) = Fulfilled"
  shows "(\<forall>f \<in> set (filter includes_dot files).
            WriteDone (remote_path dest f) None \<in> set (trace (delivers w ds s)))
       \<or> (\<exists>f \<in> set (filter includes_dot files).
            (\<exists>e. readFileSync w (local_path src f) = Inl e)
            \<or> (\<exists>e. WriteDone (remote_path dest f) (Some e) \<in> set (trace (delivers w ds s))))"
proof -
  define cs where "cs = completions_of k ds"
  define B where "B = completes w cs (UploadFiles w src dest files)"
  define fs where "fs = filter includes_dot files"
  have Bk: "batches (delivers w ds s) ! k = B"
    using k by (simp add: delivers_batch B_def cs_def)
  have inv: "batch_inv B" unfolding B_def by (intro completes_inv UploadFiles_inv)
  have len: "length (b_uploads B) = length fs"
    by (simp add: B_def UploadFiles_uploads fs_def)
  have up: "b_uploads B ! j = upload_after w src dest cs j (fs ! j)" if "j < length fs" for j
    unfolding B_def fs_def using that [unfolded fs_def] by (rule uploads_after)
  have tr: "WriteDone (remote_path dest (fs ! j)) (writeFile w (remote_path dest (fs ! j)))
            \<in> set (trace (delivers w ds s))"
    if "j < length fs" "readFileSync w (local_path src (fs ! j)) = Inr c" "j \<in> set cs" for j c
    using that unfolding fs_def cs_def by (intro delivered_in_trace [OF k]) simp_all
  from f k have "b_outer B = Fulfilled" by (simp add: outer_def Bk)
  with inv have np: "b_all B \<noteq> Pending" by (auto simp: batch_inv_def Let_def)
  show ?thesis
  proof (cases "b_all B")
    case Pending
    with np show ?thesis by simp
  next
    case Fulfilled
    with inv have all: "list_all (\<lambda>p. p = Fulfilled) (map u_promise (b_uploads B))"
      by (simp add: batch_inv_def Let_def)
    have "WriteDone (remote_path dest f) None \<in> set (trace (delivers w ds s))"
      if "f \<in> set fs" for f
    proof -
      from that obtain j where j: "j < length fs" "fs ! j = f" by (auto simp: in_set_conv_nth)
      from all j(1) len have "u_promise (b_uploads B ! j) = Fulfilled"
        by (simp add: list_all_length)
      then have "u_promise (upload_after w src dest cs j f) = Fulfilled"
        using up [OF j(1)] j(2) by simp
      then obtain c where "readFileSync w (local_path src f) = Inr c" "j \<in> set cs"
        "writeFile w (remote_path dest f) = None"
        by (auto simp: upload_after_def split: sum.splits if_splits option.splits)
      with tr [of j c] j show ?thesis by simp
    qed
    then show ?thesis unfolding fs_def by blast
  next
    case (Rejected e)
    with inv have "Rejected e \<in> set (map u_promise (b_uploads B))"
      by (simp add: batch_inv_def Let_def)
    then obtain j where j: "j < length fs" "u_promise (b_uploads B ! j) = Rejected e"
      using len by (auto simp: in_set_conv_nth)
    define f where "f = fs ! j"
    have fin: "f \<in> set fs" using j(1) by (simp add: f_def)
    have "u_promise (upload_after w src dest cs j f) = Rejected e"
      using up [OF j(1)] j(2) by (simp add: f_def)
    then consider "readFileSync w (local_path src f) = Inl e"
      | c where "readFileSync w (local_path src f) = Inr c" "j \<in> set cs"
          "writeFile w (remote_path dest f) = Some e"
      by (auto simp: upload_after_def split: sum.splits if_splits option.splits)
    then show ?thesis
    proof cases
      case 1
      with fin show ?thesis unfolding fs_def by blast
    next
      case 2
      with tr [of j c] j(1) have "WriteDone (remote_path dest f) (Some e) \<in> set (trace (delivers w ds s))"
        by (simp add: f_def)
      with fin show ?thesis unfolding fs_def by blast
    qed
  qed
qed

lemma deploy_reach:
  assumes "argv2 w = Some env" and "env \<noteq> []"
    and "require w (path_join (dirname w) (env_file env)) = Inr config"
    and "missing_credentials config = Inr False"
    and "execa w ''npm'' [''run'', ''build''] = None"
    and "mkdir w (run_dest w) = None" and "mkdir w (run_dest w @ ''/static'') = None"
    and "readdir w (run_dist w) = Inr files" and "readdir w (run_static w) = Inr staticFiles"
  shows "\<exists>s2. batches s2 = [] \<and> filter is_control (trace s2) = []
     \<and> deploy w sched =
         (case Deploy_Checkout w config (run_ctx w files staticFiles) sched s2 of
            (s, Rejects ex) \<Rightarrow> (s, RunRejected ex)
          | (s, Never) \<Rightarrow> (s, RunPending)
          | (s, Resolves u) \<Rightarrow> (emit (finished config (make_timestamp (Date_now w))) s, Finished))"
proof -
  define s1 where "s1 = emit [Require (path_join (dirname w) (env_file env))] (emit header initial)"
  define s2 where "s2 = emit [TaskOutput ''Building...'', Execa ''npm'' [''run'', ''build'']] s1"
  define c where "c = run_ctx w files staticFiles"
  define s3 where "s3 = emit [TaskOutput ''Creating a new versioned folder and...'',
           Mkdir (Connect config) (run_dest w),
           Mkdir (Connect config) (run_dest w @ ''/static''),
           TaskOutput ''Getting a list of files and folder to upload...'',
           Readdir (run_dist w), Readdir (run_static w)] s2"
  have s3: "Pre_Deploy_Setup w config s2 = (s3, Resolves c)"
    using Pre_Deploy_Setup_ok [OF assms(6-9), of config s2] by (simp add: c_def s3_def)
  have b: "batches s3 = []" "filter is_control (trace s3) = []"
    by (simp_all add: s3_def s2_def s1_def header_def)
  define D where "D = Deploy_Checkout w config c sched s3"
  have "tasks_run w config sched s1 =
      (case D of (s, Rejects ex) \<Rightarrow> (s, Rejects ex) | (s, Never) \<Rightarrow> (s, Never)
               | (s, Resolves u) \<Rightarrow> (s, Resolves c))"
    using Build_Checkout_ok [OF assms(5), of s1] s3
    by (simp add: tasks_run_def s2_def [symmetric] D_def [symmetric])
  then have "deploy w sched =
      (case D of (s, Rejects ex) \<Rightarrow> (s, RunRejected ex) | (s, Never) \<Rightarrow> (s, RunPending)
               | (s, Resolves u) \<Rightarrow> (emit (finished config (timestamp c)) s, Finished))"
    using assms(1-4)
    by (cases D) (auto simp: deploy_def Let_def s1_def [symmetric] split: settle.splits)
  moreover have "timestamp c = make_timestamp (Date_now w)"
    by (simp add: c_def run_ctx_def)
  ultimately have "deploy w sched =
      (case Deploy_Checkout w config (run_ctx w files staticFiles) sched s3 of
         (s, Rejects ex) \<Rightarrow> (s, RunRejected ex) | (s, Never) \<Rightarrow> (s, RunPending)
       | (s, Resolves u) \<Rightarrow> (emit (finished config (make_timestamp (Date_now w))) s, Finished))"
    unfolding D_def c_def by (simp only:)
  with b show ?thesis by blast
qed

lemma delivers_trace_prefix: "\<exists>X. trace (delivers w ds s) = trace s @ X"
proof (induction ds arbitrary: s)
  case Nil
  then show ?case by simp
next
  case (Cons c ds)
  obtain k i where c: "c = (k, i)" by (cases c)
  have "\<exists>Y. trace (deliver w c s) = trace s @ Y"
    by (simp add: c deliver_def Let_def)
  then obtain Y where Y: "trace (deliver w c s) = trace s @ Y" ..
  from Cons [of "deliver w c s"] obtain X where
    "trace (delivers w ds (deliver w c s)) = trace (deliver w c s) @ X" by blast
  with Y show ?case by simp
qed

lemma delivers_keeps_out:
  assumes "\<And>p r. e \<noteq> WriteDone p r" "e \<notin> set (trace s)"
  shows "e \<notin> set (trace (delivers w ds s))"
proof -
  have "filter (\<lambda>x. x = e) (trace (delivers w ds s)) = filter (\<lambda>x. x = e) (trace s)"
    by (rule delivers_projection) (use assms(1) in auto)
  moreover have "filter (\<lambda>x. x = e) (trace s) = []"
    using assms(2) by (auto simp: filter_empty_conv)
  ultimately have "filter (\<lambda>x. x = e) (trace (delivers w ds s)) = []" by simp
  then show ?thesis by (auto simp: filter_empty_conv)
qed

lemma uploader_events_kinds:
  "x \<in> set (concat (map (uploader_events w url src dest) fs)) \<Longrightarrow> \<not> is_control x"
  by (auto simp: uploader_events_def split: sum.splits)

lemma first_call_trace:
  "trace (first_call w config c s) =
     trace s @ TaskOutput (''Uploading '' @ digits (fileCount c) @ '' files...'')
       # Called (distFolder c) (destFolder c)
       # concat (map (uploader_events w (Connect config) (distFolder c) (destFolder c))
                  (filter includes_dot (distFiles c)))"
  by (simp add: first_call_def call_UploadFiles_def)

lemma second_call_trace:
  "trace (second_call w config c n s) =
     trace s @ Awaited n Fulfilled
       # Called (distStaticFolder c) (destFolder c @ ''/static'')
       # concat (map (uploader_events w (Connect config) (distStaticFolder c) (destFolder c @ ''/static''))
                  (filter includes_dot (distStaticFiles c)))"
  by (simp add: second_call_def call_UploadFiles_def)

lemma Deploy_Checkout_second:
  fixes w config c sched s
  defines "e \<equiv> Called (distStaticFolder c) (destFolder c @ ''/static'')"
    and "D \<equiv> Deploy_Checkout w config c sched s"
  assumes out: "e \<notin> set (trace s)"
  shows "(e \<notin> set (trace (fst D)) \<and> snd D = Never)
       \<or> (\<exists>ds rest.
            outer (length (batches s)) (delivers w ds (first_call w config c s)) = Fulfilled
            \<and> e \<notin> set (trace (delivers w ds (first_call w config c s)))
            \<and> trace (fst D) = trace (delivers w ds (first_call w config c s))
                 @ Awaited (length (batches s)) Fulfilled # e # rest)"
proof -
  have first: "e \<notin> set (trace (delivers w ds (first_call w config c s)))" for ds
  proof (rule delivers_keeps_out)
    show "e \<noteq> WriteDone p r" for p r by (simp add: e_def)
    show "e \<notin> set (trace (first_call w config c s))"
      using out uploader_events_kinds [of e w "Connect config" "distFolder c" "destFolder c"
          "filter includes_dot (distFiles c)"]
      by (auto simp: first_call_trace e_def)
  qed
  have second: "\<exists>rest. trace (delivers w ds2 (second_call w config c n s3))
      = trace s3 @ Awaited n Fulfilled # e # rest" for ds2 n s3
    using delivers_trace_prefix [of w ds2 "second_call w config c n s3"]
    by (auto simp: second_call_trace e_def)
  show ?thesis
  proof (cases rule: Deploy_Checkout_cases [of w config c sched s])
    case (first_pending ds)
    then show ?thesis using first [of ds] by (simp add: D_def)
  next
    case (second_pending ds1 ds2)
    from second [of ds2 "length (batches s)" "delivers w ds1 (first_call w config c s)"]
    obtain rest where "trace (fst D) = trace (delivers w ds1 (first_call w config c s))
        @ Awaited (length (batches s)) Fulfilled # e # rest"
      using second_pending(2) by (auto simp: D_def)
    with second_pending(1) first [of ds1] show ?thesis by blast
  next
    case (both_fulfilled ds1 ds2)
    from second [of ds2 "length (batches s)" "delivers w ds1 (first_call w config c s)"]
    obtain rest where "trace (delivers w ds2 (second_call w config c (length (batches s))
        (delivers w ds1 (first_call w config c s))))
      = trace (delivers w ds1 (first_call w config c s))
        @ Awaited (length (batches s)) Fulfilled # e # rest" by blast
    then have "trace (fst D) = trace (delivers w ds1 (first_call w config c s))
        @ Awaited (length (batches s)) Fulfilled # e # (rest @ [Awaited (length (batches s) + 1) Fulfilled])"
      using both_fulfilled(2) by (simp add: D_def)
    with both_fulfilled(1) first [of ds1] show ?thesis by blast
  qed
qed

lemma first_occurrence:
  assumes "pre @ e # post = X @ e # rest" "e \<notin> set pre" "e \<notin> set X"
  shows "pre = X"
proof -
  have "takeWhile (\<lambda>x. x \<noteq> e) (pre @ e # post) = pre"
    using assms(2) by (auto simp: takeWhile_tail)
  moreover have "takeWhile (\<lambda>x. x \<noteq> e) (X @ e # rest) = X"
    using assms(3) by (auto simp: takeWhile_tail)
  ultimately show ?thesis using assms(1) by simp
qed

lemma catch_config_outcome: "snd (catch_config w env s) \<noteq> Finished"
  by (simp add: catch_config_def Let_def split: option.splits)

lemma deploy_Finished:
  assumes fin: "snd (deploy w sched) = Finished"
  shows "\<exists>env config files staticFiles.
           argv2 w = Some env \<and> env \<noteq> []
           \<and> require w (path_join (dirname w) (env_file env)) = Inr config
           \<and> missing_credentials config = Inr False
           \<and> execa w ''npm'' [''run'', ''build''] = None
           \<and> mkdir w (run_dest w) = None \<and> mkdir w (run_dest w @ ''/static'') = None
           \<and> readdir w (run_dist w) = Inr files \<and> readdir w (run_static w) = Inr staticFiles"
proof -
  obtain env where env: "argv2 w = Some env"
    using fin by (cases "argv2 w") (auto simp: deploy_def Let_def)
  have ne: "env \<noteq> []"
    using fin env by (auto simp: deploy_def Let_def)
  define p where "p = path_join (dirname w) (env_file env)"
  define s1 where "s1 = emit [Require p] (emit header initial)"
  obtain config where cfg: "require w p = Inr config"
    using fin env ne catch_config_outcome [of w env s1]
    by (cases "require w p") (auto simp: deploy_def Let_def p_def s1_def)
  have cred: "missing_credentials config = Inr False"
  proof (cases "missing_credentials config")
    case (Inl ex)
    then show ?thesis
      using fin env ne cfg catch_config_outcome [of w env s1]
      by (auto simp: deploy_def Let_def p_def s1_def)
  next
    case (Inr b)
    then show ?thesis
      using fin env ne cfg by (cases b) (auto simp: deploy_def Let_def p_def)
  qed
  obtain s c where run: "tasks_run w config sched s1 = (s, Resolves c)"
    using fin env ne cfg cred
    by (cases "tasks_run w config sched s1"; cases "snd (tasks_run w config sched s1)")
       (auto simp: deploy_def Let_def p_def s1_def)
  obtain sb rb where b: "Build_Checkout w s1 = (sb, rb)" by (cases "Build_Checkout w s1")
  obtain u where rb: "rb = Resolves u"
    using run b by (cases rb) (auto simp: tasks_run_def)
  have built: "execa w ''npm'' [''run'', ''build''] = None"
    using b rb by (simp add: Build_Checkout_def Let_def split: option.splits)
  obtain sp rp where pd: "Pre_Deploy_Setup w config sb = (sp, rp)"
    by (cases "Pre_Deploy_Setup w config sb")
  obtain c' where rp: "rp = Resolves c'"
    using run b rb pd by (cases rp) (auto simp: tasks_run_def)
  from Pre_Deploy_Setup_Resolves [OF pd [unfolded rp]] env ne cfg cred built
  show ?thesis unfolding p_def by blast
qed

lemma finished_after_second:
  assumes fin: "snd (deploy w sched) = Finished"
  shows "(\<forall>f \<in> set (filter includes_dot (listing w (run_static w))).
            WriteDone (remote_path (run_dest w @ ''/static'') f) None
              \<in> set (trace (fst (deploy w sched))))
       \<or> (\<exists>f \<in> set (filter includes_dot (listing w (run_static w))).
            (\<exists>e. readFileSync w (local_path (run_static w) f) = Inl e)
            \<or> (\<exists>e. WriteDone (remote_path (run_dest w @ ''/static'') f) (Some e)
                       \<in> set (trace (fst (deploy w sched)))))"
proof -
  from deploy_Finished [OF fin] obtain env config files staticFiles where
    R: "argv2 w = Some env" "env \<noteq> []"
      "require w (path_join (dirname w) (env_file env)) = Inr config"
      "missing_credentials config = Inr False"
      "execa w ''npm'' [''run'', ''build''] = None"
      "mkdir w (run_dest w) = None" "mkdir w (run_dest w @ ''/static'') = None"
      "readdir w (run_dist w) = Inr files" "readdir w (run_static w) = Inr staticFiles"
    by blast
  define c where "c = run_ctx w files staticFiles"
  have c: "distStaticFolder c = run_static w" "destFolder c = run_dest w"
    "distStaticFiles c = staticFiles"
    by (simp_all add: c_def run_ctx_def)
  from deploy_reach [OF R, of sched] obtain s2 where s2: "batches s2 = []"
    and d: "deploy w sched =
         (case Deploy_Checkout w config c sched s2 of
            (s, Rejects ex) \<Rightarrow> (s, RunRejected ex)
          | (s, Never) \<Rightarrow> (s, RunPending)
          | (s, Resolves u) \<Rightarrow> (emit (finished config (make_timestamp (Date_now w))) s, Finished))"
    unfolding c_def by blast
  show ?thesis
  proof (cases rule: Deploy_Checkout_cases [of w config c sched s2])
    case (first_pending ds)
    with d fin show ?thesis by simp
  next
    case (second_pending ds1 ds2)
    with d fin show ?thesis by simp
  next
    case (both_fulfilled ds1 ds2)
    define S1 where "S1 = second_call w config c (length (batches s2))
        (delivers w ds1 (first_call w config c s2))"
    define S where "S = delivers w ds2 S1"
    have k1: "1 < length (batches S1)"
      "batches S1 ! 1 = UploadFiles w (run_static w) (run_dest w @ ''/static'') staticFiles"
      by (simp_all add: S1_def second_call_batch first_call_batch s2 nth_append c)
    have f: "outer 1 (delivers w ds2 S1) = Fulfilled"
      using both_fulfilled(3) unfolding S1_def by (simp add: s2)
    have sub: "set (trace S) \<subseteq> set (trace (fst (deploy w sched)))"
      using d both_fulfilled(2) by (auto simp: S_def S1_def)
    have fs: "listing w (run_static w) = staticFiles" by (simp add: listing_def R)
    from settled_in_trace [OF k1 f]
    have "(\<forall>f \<in> set (filter includes_dot staticFiles).
              WriteDone (remote_path (run_dest w @ ''/static'') f) None \<in> set (trace S))
         \<or> (\<exists>f \<in> set (filter includes_dot staticFiles).
              (\<exists>e. readFileSync w (local_path (run_static w) f) = Inl e)
              \<or> (\<exists>e. WriteDone (remote_path (run_dest w @ ''/static'') f) (Some e) \<in> set (trace S)))"
      unfolding S_def .
    with sub show ?thesis unfolding fs by blast
  qed
qed

text \<open>
  C8. In every run: when a write to the server is issued, both \<^verbatim>\<open>mkdir\<close> calls (for
  the destination and for its \<^verbatim>\<open>static\<close> directory, on the same connection URL) have
  been made before it and both have succeeded, and the write goes into one of these
  two directories. When \<^verbatim>\<open>UploadFiles\<close> is called for the static directory, the call
  for the build output has been made before it and the promise of that call has
  settled: by then every write of the first call has completed without an error, or
  one upload of the first call has failed (its file could not be read, or its write
  has completed with an error). When the run ends as finished, the promise of the
  second call has settled in the same way: every write of the second call has
  completed without an error, or one upload of the second call has failed. Altogether
  the remote operations, calls and ends of awaits of the run are an initial segment of
  \<open>upload_order\<close>.
\<close>

theorem directories_before_uploads:
  fixes w sched
  defines "t \<equiv> trace (fst (deploy w sched))"
  shows "(\<forall>pre url p c post. t = pre @ WriteFile url p c # post \<longrightarrow>
            Mkdir url (run_dest w) \<in> set pre \<and> Mkdir url (run_dest w @ ''/static'') \<in> set pre
            \<and> mkdir w (run_dest w) = None \<and> mkdir w (run_dest w @ ''/static'') = None
            \<and> (\<exists>f. p = remote_path (run_dest w) f \<or> p = remote_path (run_dest w @ ''/static'') f))
       \<and> (\<forall>pre post. t = pre @ Called (run_static w) (run_dest w @ ''/static'') # post \<longrightarrow>
            Called (run_dist w) (run_dest w) \<in> set pre \<and> Awaited 0 Fulfilled \<in> set pre
            \<and> ((\<forall>f \<in> set (filter includes_dot (listing w (run_dist w))).
                    WriteDone (remote_path (run_dest w) f) None \<in> set pre)
               \<or> (\<exists>f \<in> set (filter includes_dot (listing w (run_dist w))).
                    (\<exists>e. readFileSync w (local_path (run_dist w) f) = Inl e)
                    \<or> (\<exists>e. WriteDone (remote_path (run_dest w) f) (Some e) \<in> set pre))))
       \<and> (snd (deploy w sched) = Finished \<longrightarrow>
            (\<forall>f \<in> set (filter includes_dot (listing w (run_static w))).
                WriteDone (remote_path (run_dest w @ ''/static'') f) None \<in> set t)
            \<or> (\<exists>f \<in> set (filter includes_dot (listing w (run_static w))).
                  (\<exists>e. readFileSync w (local_path (run_static w) f) = Inl e)
                  \<or> (\<exists>e. WriteDone (remote_path (run_dest w @ ''/static'') f) (Some e) \<in> set t)))
       \<and> (\<exists>url k. filter remote_or_control t = take k (upload_order w url))"
proof -
  from deploy_projection [of w sched] obtain url0 k where
    proj: "filter remote_or_control t = take k (upload_order w url0)"
    and ok: "2 < k \<Longrightarrow> mkdir w (run_dest w) = None \<and> mkdir w (run_dest w @ ''/static'') = None"
    and reach: "2 < k \<Longrightarrow> \<exists>env config files staticFiles.
                 argv2 w = Some env \<and> env \<noteq> []
                 \<and> require w (path_join (dirname w) (env_file env)) = Inr config
                 \<and> missing_credentials config = Inr False
                 \<and> execa w ''npm'' [''run'', ''build''] = None
                 \<and> readdir w (run_dist w) = Inr files
                 \<and> readdir w (run_static w) = Inr staticFiles"
    unfolding t_def by blast
  define L where "L = upload_order w url0"
  have L0: "L ! 0 = Mkdir url0 (run_dest w)" "L ! 1 = Mkdir url0 (run_dest w @ ''/static'')"
    "2 < length L"
    by (simp_all add: L_def upload_order_def)
  have writes: "Mkdir url (run_dest w) \<in> set pre \<and> Mkdir url (run_dest w @ ''/static'') \<in> set pre
            \<and> mkdir w (run_dest w) = None \<and> mkdir w (run_dest w @ ''/static'') = None
            \<and> (\<exists>f. p = remote_path (run_dest w) f \<or> p = remote_path (run_dest w @ ''/static'') f)"
    if split: "t = pre @ WriteFile url p c # post" for pre url p c post
  proof -
    define j where "j = length (filter remote_or_control pre)"
    have roc: "remote_or_control (WriteFile url p c)" by (simp add: remote_or_control_def)
    from projection_split [OF split roc proj [folded L_def]]
    have j: "j < k" "j < length L" "L ! j = WriteFile url p c" "filter remote_or_control pre = take j L"
      unfolding L_def j_def by simp_all
    have "j \<noteq> 0"
    proof
      assume "j = 0"
      with j(3) L0(1) show False by simp
    qed
    moreover have "j \<noteq> 1"
    proof
      assume "j = 1"
      with j(3) L0(2) show False by simp
    qed
    ultimately have j2: "2 \<le> j" by simp
    have "WriteFile url p c \<in> set (upload_order w url0)"
      using j(2,3) unfolding L_def by (metis nth_mem)
    from upload_order_WriteFile [OF this] have u: "url = url0"
      and into: "\<exists>f. p = remote_path (run_dest w) f \<or> p = remote_path (run_dest w @ ''/static'') f"
      by simp_all
    have "L ! 0 \<in> set (take j L)"
      by (rule nth_in_take) (use j2 L0(3) in auto)
    moreover have "L ! 1 \<in> set (take j L)"
      by (rule nth_in_take) (use j2 L0(3) in simp_all)
    ultimately have "L ! 0 \<in> set (filter remote_or_control pre)"
      "L ! 1 \<in> set (filter remote_or_control pre)"
      using j(4) by simp_all
    then have "L ! 0 \<in> set pre" "L ! 1 \<in> set pre"
      by simp_all
    then show ?thesis using L0 u into ok j(1) j2 by simp
  qed
  have calls: "Called (run_dist w) (run_dest w) \<in> set pre \<and> Awaited 0 Fulfilled \<in> set pre
            \<and> ((\<forall>f \<in> set (filter includes_dot (listing w (run_dist w))).
                    WriteDone (remote_path (run_dest w) f) None \<in> set pre)
               \<or> (\<exists>f \<in> set (filter includes_dot (listing w (run_dist w))).
                    (\<exists>e. readFileSync w (local_path (run_dist w) f) = Inl e)
                    \<or> (\<exists>e. WriteDone (remote_path (run_dest w) f) (Some e) \<in> set pre)))"
    if split: "t = pre @ Called (run_static w) (run_dest w @ ''/static'') # post" for pre post
  proof -
    define e where "e = Called (run_static w) (run_dest w @ ''/static'')"
    define j where "j = length (filter remote_or_control pre)"
    define A where "A = [Mkdir url0 (run_dest w), Mkdir url0 (run_dest w @ ''/static''),
        Called (run_dist w) (run_dest w)]
      @ writes_of w url0 (run_dist w) (run_dest w) (filter includes_dot (listing w (run_dist w)))
      @ [Awaited 0 Fulfilled]"
    define B where "B = writes_of w url0 (run_static w) (run_dest w @ ''/static'')
         (filter includes_dot (listing w (run_static w))) @ [Awaited 1 Fulfilled]"
    have LAB: "L = A @ e # B" by (simp add: L_def upload_order_def A_def B_def e_def)
    have nA: "e \<notin> set A" by (auto simp: A_def e_def dest: writes_of_elem)
    have nB: "e \<notin> set B" by (auto simp: B_def e_def dest: writes_of_elem)
    have roc: "remote_or_control e" by (simp add: remote_or_control_def e_def)
    from projection_split [OF split [folded e_def] roc proj [folded L_def]]
    have j: "j < k" "j < length L" "L ! j = e" "filter remote_or_control pre = take j L"
      unfolding j_def by simp_all
    have jA: "j = length A" using nA nB j(3,2) unfolding LAB by (rule unique_position)
    then have pA: "filter remote_or_control pre = A" using j(4) LAB by simp
    then have sub: "set A \<subseteq> set pre" by (metis filter_is_subset)
    then have before: "Called (run_dist w) (run_dest w) \<in> set pre" "Awaited 0 Fulfilled \<in> set pre"
      by (auto simp: A_def)
    have e_pre: "e \<notin> set pre"
    proof
      assume "e \<in> set pre"
      with roc have "e \<in> set (filter remote_or_control pre)" by simp
      with pA nA show False by simp
    qed
    have "3 < length A" by (simp add: A_def)
    with j(1) jA have k2: "2 < k" by simp
    from reach [OF k2] obtain env config files staticFiles where
      R: "argv2 w = Some env" "env \<noteq> []"
        "require w (path_join (dirname w) (env_file env)) = Inr config"
        "missing_credentials config = Inr False"
        "execa w ''npm'' [''run'', ''build''] = None"
      and ls: "readdir w (run_dist w) = Inr files" "readdir w (run_static w) = Inr staticFiles"
      by blast
    from ok [OF k2] have mk: "mkdir w (run_dest w) = None" "mkdir w (run_dest w @ ''/static'') = None"
      by simp_all
    define c where "c = run_ctx w files staticFiles"
    have c: "distStaticFolder c = run_static w" "destFolder c = run_dest w"
      "distFolder c = run_dist w" "distFiles c = files"
      by (simp_all add: c_def run_ctx_def)
    from deploy_reach [OF R mk ls, of sched] obtain s2 where s2: "batches s2 = []"
      and ctl: "filter is_control (trace s2) = []"
      and d: "deploy w sched =
         (case Deploy_Checkout w config c sched s2 of
            (s, Rejects ex) \<Rightarrow> (s, RunRejected ex)
          | (s, Never) \<Rightarrow> (s, RunPending)
          | (s, Resolves u) \<Rightarrow> (emit (finished config (make_timestamp (Date_now w))) s, Finished))"
      unfolding c_def by blast
    define D where "D = Deploy_Checkout w config c sched s2"
    have e_s2: "e \<notin> set (trace s2)"
    proof
      assume "e \<in> set (trace s2)"
      then have "e \<in> set (filter is_control (trace s2))" by (simp add: e_def)
      with ctl show False by simp
    qed
    have never: "t = trace (fst D)" if "snd D = Never"
      using that d by (cases D) (simp add: t_def D_def)
    have tD: "\<exists>X. t = trace (fst D) @ X"
      using d by (cases D; cases "snd D") (auto simp: t_def D_def)
    from Deploy_Checkout_second [of c s2 w config sched] e_s2
    have "(e \<notin> set (trace (fst D)) \<and> snd D = Never)
       \<or> (\<exists>ds rest.
            outer (length (batches s2)) (delivers w ds (first_call w config c s2)) = Fulfilled
            \<and> e \<notin> set (trace (delivers w ds (first_call w config c s2)))
            \<and> trace (fst D) = trace (delivers w ds (first_call w config c s2))
                 @ Awaited (length (batches s2)) Fulfilled # e # rest)"
      unfolding e_def D_def c by blast
    then show ?thesis
    proof (elim disjE conjE exE)
      assume "e \<notin> set (trace (fst D))" "snd D = Never"
      with never have "e \<notin> set t" by simp
      with split show ?thesis by (simp add: e_def)
    next
      fix ds rest
      define s3 where "s3 = delivers w ds (first_call w config c s2)"
      assume "outer (length (batches s2)) (delivers w ds (first_call w config c s2)) = Fulfilled"
        and "e \<notin> set (trace (delivers w ds (first_call w config c s2)))"
        and "trace (fst D) = trace (delivers w ds (first_call w config c s2))
                 @ Awaited (length (batches s2)) Fulfilled # e # rest"
      then have f: "outer 0 s3 = Fulfilled" and o: "e \<notin> set (trace s3)"
        and tr: "trace (fst D) = trace s3 @ Awaited 0 Fulfilled # e # rest"
        by (simp_all add: s3_def s2)
      from tD tr obtain X where "t = (trace s3 @ [Awaited 0 Fulfilled]) @ e # (rest @ X)"
        by auto
      with split have "pre @ e # post = (trace s3 @ [Awaited 0 Fulfilled]) @ e # (rest @ X)"
        by (simp add: e_def)
      then have pre: "pre = trace s3 @ [Awaited 0 Fulfilled]"
        by (rule first_occurrence) (use e_pre o in \<open>simp_all add: e_def\<close>)
      have k0: "0 < length (batches (first_call w config c s2))"
        "batches (first_call w config c s2) ! 0 = UploadFiles w (run_dist w) (run_dest w) files"
        by (simp_all add: first_call_batch s2 c)
      have fs: "listing w (run_dist w) = files" by (simp add: listing_def ls)
      from settled_in_trace [OF k0 f [unfolded s3_def]]
      have "(\<forall>f \<in> set (filter includes_dot files).
                WriteDone (remote_path (run_dest w) f) None \<in> set (trace s3))
           \<or> (\<exists>f \<in> set (filter includes_dot files).
                (\<exists>e. readFileSync w (local_path (run_dist w) f) = Inl e)
                \<or> (\<exists>e. WriteDone (remote_path (run_dest w) f) (Some e) \<in> set (trace s3)))"
        unfolding s3_def .
      then have "(\<forall>f \<in> set (filter includes_dot (listing w (run_dist w))).
                    WriteDone (remote_path (run_dest w) f) None \<in> set pre)
               \<or> (\<exists>f \<in> set (filter includes_dot (listing w (run_dist w))).
                    (\<exists>e. readFileSync w (local_path (run_dist w) f) = Inl e)
                    \<or> (\<exists>e. WriteDone (remote_path (run_dest w) f) (Some e) \<in> set pre))"
        unfolding fs pre by auto
      with before show ?thesis by blast
    qed
  qed
  have ended: "(\<forall>f \<in> set (filter includes_dot (listing w (run_static w))).
                WriteDone (remote_path (run_dest w @ ''/static'') f) None \<in> set t)
            \<or> (\<exists>f \<in> set (filter includes_dot (listing w (run_static w))).
                  (\<exists>e. readFileSync w (local_path (run_static w) f) = Inl e)
                  \<or> (\<exists>e. WriteDone (remote_path (run_dest w @ ''/static'') f) (Some e) \<in> set t))"
    if "snd (deploy w sched) = Finished"
    unfolding t_def using that by (rule finished_after_second)
  from writes calls ended proj show ?thesis by blast
qed

lemma deliver_upload_counts:
  "map (\<lambda>b. length (b_uploads b)) (batches (deliver w c s)) = map (\<lambda>b. length (b_uploads b)) (batches s)"
proof -
  obtain k i where c: "c = (k, i)" by (cases c)
  show ?thesis
    by (simp add: c deliver_batches map_update list_update_same_conv)
qed

lemma delivers_upload_counts:
  "map (\<lambda>b. length (b_uploads b)) (batches (delivers w ds s)) = map (\<lambda>b. length (b_uploads b)) (batches s)"
  by (induction ds arbitrary: s) (simp_all add: deliver_upload_counts)

lemma delivers_uploads_sum:
  "(\<Sum>b\<leftarrow>batches (delivers w ds s). length (b_uploads b)) = (\<Sum>b\<leftarrow>batches s. length (b_uploads b))"
  using delivers_upload_counts [of w ds s] by (metis map_map comp_def)

lemma is_ReadFile_WriteDone: "\<not> is_ReadFile (WriteDone p e)"
  by simp

lemma call_UploadFiles_reads:
  "length (filter is_ReadFile (trace (call_UploadFiles w url src dest files s)))
   = length (filter is_ReadFile (trace s)) + length (filter includes_dot files)"
  by (simp add: call_UploadFiles_def uploader_events_reads)

lemma fileCount_both_calls:
  assumes "Pre_Deploy_Setup w config s1 = (s2, Resolves c)"
    and "Deploy_Checkout w config c sched s2 = (s3, r)"
    and "length (batches s3) = length (batches s2) + 2"
  shows "fileCount c = length (filter includes_dot (distFiles c @ distStaticFiles c))
       \<and> (\<Sum>b\<leftarrow>batches s3. length (b_uploads b))
           = (\<Sum>b\<leftarrow>batches s2. length (b_uploads b)) + fileCount c
       \<and> length (filter is_ReadFile (trace s3))
           = length (filter is_ReadFile (trace s2)) + fileCount c"
proof -
  from Pre_Deploy_Setup_Resolves [OF assms(1)] obtain files staticFiles where
    c: "c = run_ctx w files staticFiles" by blast
  then have count: "fileCount c = length (filter includes_dot (distFiles c))
      + length (filter includes_dot (distStaticFiles c))"
    by (simp add: run_ctx_def)
  from c have fc: "fileCount c = length (filter includes_dot (distFiles c @ distStaticFiles c))"
    by (simp add: run_ctx_def)
  define s4 where "s4 = first_call w config c s2"
  have s4: "(\<Sum>b\<leftarrow>batches s4. length (b_uploads b))
      = (\<Sum>b\<leftarrow>batches s2. length (b_uploads b)) + length (filter includes_dot (distFiles c))"
    "length (filter is_ReadFile (trace s4))
      = length (filter is_ReadFile (trace s2)) + length (filter includes_dot (distFiles c))"
    by (simp_all add: s4_def first_call_def UploadFiles_uploads call_UploadFiles_reads)
  have second: "(\<Sum>b\<leftarrow>batches s3. length (b_uploads b))
           = (\<Sum>b\<leftarrow>batches s2. length (b_uploads b)) + fileCount c
       \<and> length (filter is_ReadFile (trace s3))
           = length (filter is_ReadFile (trace s2)) + fileCount c"
    if "s3 = delivers w ds2 (second_call w config c n (delivers w ds1 s4))
        \<or> s3 = emit [Awaited m Fulfilled]
             (delivers w ds2 (second_call w config c n (delivers w ds1 s4)))" for ds1 ds2 n m
  proof -
    define s5 where "s5 = delivers w ds1 s4"
    have s5: "(\<Sum>b\<leftarrow>batches s5. length (b_uploads b)) = (\<Sum>b\<leftarrow>batches s4. length (b_uploads b))"
      "length (filter is_ReadFile (trace s5)) = length (filter is_ReadFile (trace s4))"
      by (simp_all add: s5_def delivers_uploads_sum
          delivers_projection [of is_ReadFile, OF is_ReadFile_WriteDone])
    define s6 where "s6 = second_call w config c n s5"
    have s6: "(\<Sum>b\<leftarrow>batches s6. length (b_uploads b))
        = (\<Sum>b\<leftarrow>batches s5. length (b_uploads b)) + length (filter includes_dot (distStaticFiles c))"
      "length (filter is_ReadFile (trace s6))
        = length (filter is_ReadFile (trace s5)) + length (filter includes_dot (distStaticFiles c))"
      by (simp_all add: s6_def second_call_def UploadFiles_uploads call_UploadFiles_reads)
    have s7: "(\<Sum>b\<leftarrow>batches (delivers w ds2 s6). length (b_uploads b))
        = (\<Sum>b\<leftarrow>batches s6. length (b_uploads b))"
      "length (filter is_ReadFile (trace (delivers w ds2 s6))) = length (filter is_ReadFile (trace s6))"
      by (simp_all add: delivers_uploads_sum
          delivers_projection [of is_ReadFile, OF is_ReadFile_WriteDone])
    from that show ?thesis
      unfolding s5_def [symmetric] s6_def [symmetric]
      using s4 s5 s6 s7 count by auto
  qed
  show ?thesis
  proof (cases rule: Deploy_Checkout_cases [of w config c sched s2])
    case (first_pending ds)
    then have "s3 = delivers w ds s4" using assms(2) by (simp add: s4_def)
    then have "length (batches s3) = length (batches s2) + 1"
      by (simp add: s4_def first_call_batch)
    with assms(3) show ?thesis by simp
  next
    case (second_pending ds1 ds2)
    then have "s3 = delivers w ds2 (second_call w config c (length (batches s2)) (delivers w ds1 s4))"
      using assms(2) by (simp add: s4_def)
    then have "s3 = delivers w ds2 (second_call w config c (length (batches s2)) (delivers w ds1 s4))
        \<or> s3 = emit [Awaited 0 Fulfilled]
             (delivers w ds2 (second_call w config c (length (batches s2)) (delivers w ds1 s4)))"
      by (rule disjI1)
    from second [OF this] fc show ?thesis by blast
  next
    case (both_fulfilled ds1 ds2)
    then have "s3 = emit [Awaited (length (batches s2) + 1) Fulfilled]
        (delivers w ds2 (second_call w config c (length (batches s2)) (delivers w ds1 s4)))"
      using assms(2) by (simp add: s4_def)
    then have "s3 = delivers w ds2 (second_call w config c (length (batches s2)) (delivers w ds1 s4))
        \<or> s3 = emit [Awaited (length (batches s2) + 1) Fulfilled]
             (delivers w ds2 (second_call w config c (length (batches s2)) (delivers w ds1 s4)))"
      by (rule disjI2)
    from second [OF this] fc show ?thesis by blast
  qed
qed

lemma deploy_finishes:
  assumes "argv2 w = Some env" and "env \<noteq> []"
    and "require w (path_join (dirname w) (env_file env)) = Inr config"
    and "missing_credentials config = Inr False"
    and "execa w ''npm'' [''run'', ''build''] = None"
    and "mkdir w (run_dest w) = None" and "mkdir w (run_dest w @ ''/static'') = None"
    and "readdir w (run_dist w) = Inr files" and "readdir w (run_static w) = Inr staticFiles"
    and "covers 0 (length (filter includes_dot files)) a"
    and "covers 1 (length (filter includes_dot staticFiles)) b"
  shows "\<exists>s. deploy w (a @ b) = (emit (finished config (make_timestamp (Date_now w))) s, Finished)"
proof -
  define s1 where "s1 = emit [Require (path_join (dirname w) (env_file env))] (emit header initial)"
  define s2 where "s2 = emit [TaskOutput ''Building...'', Execa ''npm'' [''run'', ''build'']] s1"
  define c where "c = run_ctx w files staticFiles"
  obtain s3 where s3: "Pre_Deploy_Setup w config s2 = (s3, Resolves c)" "batches s3 = []"
    using Pre_Deploy_Setup_ok [OF assms(6-9), of config s2]
    by (simp add: c_def s2_def s1_def)
  define D where "D = Deploy_Checkout w config c (a @ b) s3"
  have "snd D = Resolves ()"
    unfolding D_def
    by (rule Deploy_Checkout_fair [where a = a and b = b])
       (use assms(10,11) in \<open>simp_all add: s3 c_def run_ctx_def\<close>)
  then obtain s4 where D: "D = (s4, Resolves ())" by (cases D) simp
  have "tasks_run w config (a @ b) s1 = (s4, Resolves c)"
    using Build_Checkout_ok [OF assms(5), of s1] s3(1) D
    by (simp add: tasks_run_def s2_def [symmetric] D_def [symmetric])
  then have "deploy w (a @ b) = (emit (finished config (timestamp c)) s4, Finished)"
    using assms(1-4) by (simp add: deploy_def Let_def s1_def [symmetric])
  then show ?thesis by (auto simp: c_def run_ctx_def)
qed

lemma Deploy_Checkout_never_rejects: "snd (Deploy_Checkout w config c sched s) \<noteq> Rejects ex"
  by (cases rule: Deploy_Checkout_cases [of w config c sched s]) simp_all

lemma deploy_transfer:
  assumes "argv2 w = Some env" and "env \<noteq> []"
    and "require w (path_join (dirname w) (env_file env)) = Inr config"
    and "missing_credentials config = Inr False"
    and "execa w ''npm'' [''run'', ''build''] = None"
    and "mkdir w (run_dest w) = None" and "mkdir w (run_dest w @ ''/static'') = None"
    and "readdir w (run_dist w) = Inr files" and "readdir w (run_static w) = Inr staticFiles"
  shows "(snd (deploy w sched) = RunPending
            \<and> (\<exists>i. in_flight (last (batches (fst (deploy w sched)))) i))
       \<or> (snd (deploy w sched) = Finished
            \<and> (\<exists>pre. trace (fst (deploy w sched))
                   = pre @ finished config (make_timestamp (Date_now w))))"
proof -
  define c where "c = run_ctx w files staticFiles"
  from deploy_reach [OF assms, of sched] obtain s2 where s2: "batches s2 = []"
    and d: "deploy w sched =
         (case Deploy_Checkout w config c sched s2 of
            (s, Rejects ex) \<Rightarrow> (s, RunRejected ex)
          | (s, Never) \<Rightarrow> (s, RunPending)
          | (s, Resolves u) \<Rightarrow> (emit (finished config (make_timestamp (Date_now w))) s, Finished))"
    unfolding c_def by blast
  show ?thesis
  proof (cases rule: Deploy_Checkout_cases [of w config c sched s2])
    case (first_pending ds)
    define S where "S = delivers w ds (first_call w config c s2)"
    define U where "U = UploadFiles w (distFolder c) (destFolder c) (distFiles c)"
    have dep: "deploy w sched = (S, RunPending)"
      using d first_pending(1) by (simp add: S_def)
    have len: "length (batches S) = 1" by (simp add: S_def first_call_batch s2)
    have B: "batches S ! 0 = completes w (completions_of 0 ds) U"
      by (simp add: S_def delivers_batch first_call_batch s2 U_def)
    have "outer (length (batches s2)) S = Pending"
      using first_pending(2) unfolding S_def .
    then have "b_outer (batches S ! 0) = Pending"
      using len by (simp add: outer_def s2)
    then have "\<exists>i. in_flight (batches S ! 0) i"
      unfolding B U_def by (rule pending_in_flight)
    moreover have "last (batches S) = batches S ! 0"
      using len by (cases "batches S") (auto simp: last_conv_nth)
    ultimately show ?thesis by (simp add: dep)
  next
    case (second_pending ds1 ds2)
    define S1 where "S1 = second_call w config c (length (batches s2))
        (delivers w ds1 (first_call w config c s2))"
    define S where "S = delivers w ds2 S1"
    define U where "U = UploadFiles w (distStaticFolder c) (destFolder c @ ''/static'') (distStaticFiles c)"
    have dep: "deploy w sched = (S, RunPending)"
      using d second_pending(2) by (simp add: S_def S1_def)
    have len1: "length (batches S1) = 2" "batches S1 ! 1 = U"
      by (simp_all add: S1_def second_call_batch first_call_batch s2 U_def nth_append)
    have len: "length (batches S) = 2" by (simp add: S_def len1)
    have B: "batches S ! 1 = completes w (completions_of 1 ds2) U"
      using len1 by (simp add: S_def delivers_batch)
    have "outer (length (batches s2) + 1) S = Pending"
      using second_pending(3) unfolding S_def S1_def .
    then have "b_outer (batches S ! 1) = Pending"
      using len by (simp add: outer_def s2)
    then have "\<exists>i. in_flight (batches S ! 1) i"
      unfolding B U_def by (rule pending_in_flight)
    moreover have "last (batches S) = batches S ! 1"
    proof -
      from len have "batches S \<noteq> []" by auto
      then have "last (batches S) = batches S ! (length (batches S) - 1)" by (rule last_conv_nth)
      with len show ?thesis by simp
    qed
    ultimately show ?thesis by (simp add: dep)
  next
    case (both_fulfilled ds1 ds2)
    then show ?thesis using d by simp
  qed
qed

text \<open>
  C2. The promise that \<^verbatim>\<open>UploadFiles\<close> returns is never rejected, whatever the writes
  do and in whatever order they complete; it is fulfilled once every write that was
  issued has completed, and it is pending only while a write that was issued has not
  completed. So the third task never rejects. In a run that reaches the
  third task, whatever the order in which the writes complete: the run ends as
  finished or stays pending, and it is not rejected; it stays pending only while a
  write issued by the call it awaits has not completed; and when it ends as finished,
  the last thing it prints is the banner of \<^verbatim>\<open>finished\<close>, from the line \<^verbatim>\<open>Finished\<close>
  to the line \<^verbatim>\<open>Thanks for deploying!\<close>, with the store hash and the deployment
  identifier in it. In particular the run finishes when the completions of the first
  call arrive and then those of the second, whether or not a write has failed.
\<close>

theorem failed_upload_does_not_stop_run:
  fixes w :: world
  shows "(\<forall>cs e. b_outer (completes w cs (UploadFiles w src dest fs)) \<noteq> Rejected e)
       \<and> (\<forall>cs. (\<forall>i < length (filter includes_dot fs). i \<in> set cs) \<longrightarrow>
            b_outer (completes w cs (UploadFiles w src dest fs)) = Fulfilled)
       \<and> (\<forall>cs. b_outer (completes w cs (UploadFiles w src dest fs)) = Pending \<longrightarrow>
            (\<exists>i. in_flight (completes w cs (UploadFiles w src dest fs)) i))
       \<and> (\<forall>ex. snd (Deploy_Checkout w config c sched s) \<noteq> Rejects ex)
       \<and> (argv2 w = Some env \<and> env \<noteq> []
            \<and> require w (path_join (dirname w) (env_file env)) = Inr config
            \<and> missing_credentials config = Inr False
            \<and> execa w ''npm'' [''run'', ''build''] = None
            \<and> mkdir w (run_dest w) = None \<and> mkdir w (run_dest w @ ''/static'') = None
            \<and> readdir w (run_dist w) = Inr files \<and> readdir w (run_static w) = Inr staticFiles \<longrightarrow>
          (snd (deploy w sched) = Finished \<or> snd (deploy w sched) = RunPending)
          \<and> (snd (deploy w sched) = RunPending \<longrightarrow>
               (\<exists>i. in_flight (last (batches (fst (deploy w sched)))) i))
          \<and> (snd (deploy w sched) = Finished \<longrightarrow>
               (\<exists>pre. trace (fst (deploy w sched)) = pre @
                  [ConsoleLog (''  '' @ [CHR 0xE2, CHR 0x88, CHR 0x9A] @ '' Finished''),
                   ConsoleLog [],
                   ConsoleLog ''---------------------------------------'',
                   ConsoleLog ''Manual Step Required'',
                   ConsoleLog ''---------------------------------------'',
                   ConsoleLog ''A final step is required to change the storefront checkout to the newly deployed checkout.'',
                   ConsoleLog [],
                   ConsoleLog (''1. Go to https://store-'' @ STOREHASH config
                               @ ''.mybigcommerce.com/manage/settings/checkout''),
                   ConsoleLog (''2. Under '' @ [CHR 0x22] @ ''Custom Checkout Settings'' @ [CHR 0x22]
                               @ '', replace '' @ [CHR 0x22] @ ''Script URL'' @ [CHR 0x22]
                               @ '' with the following:''),
                   ConsoleLog (''   webdav:checkout/'' @ make_timestamp (Date_now w)
                               @ ''/auto-loader-1.96.1.js''),
                   ConsoleLog ''3. Click Save'',
                   ConsoleLog [],
                   ConsoleLog ([CHR 0xF0, CHR 0x9F, CHR 0x8E, CHR 0x89] @ '' Thanks for deploying!'')]))
          \<and> (covers 0 (length (filter includes_dot files)) a
                \<and> covers 1 (length (filter includes_dot staticFiles)) b \<longrightarrow>
              snd (deploy w (a @ b)) = Finished))"
proof (intro conjI allI impI)
  fix cs e
  show "b_outer (completes w cs (UploadFiles w src dest fs)) \<noteq> Rejected e"
    by (rule outer_not_rejected)
next
  fix cs
  assume "\<forall>i < length (filter includes_dot fs). i \<in> set cs"
  then show "b_outer (completes w cs (UploadFiles w src dest fs)) = Fulfilled"
    by (rule outer_fulfilled)
next
  fix cs
  assume "b_outer (completes w cs (UploadFiles w src dest fs)) = Pending"
  then show "\<exists>i. in_flight (completes w cs (UploadFiles w src dest fs)) i"
    by (rule pending_in_flight)
next
  fix ex
  show "snd (Deploy_Checkout w config c sched s) \<noteq> Rejects ex"
    by (rule Deploy_Checkout_never_rejects)
next
  assume a: "argv2 w = Some env \<and> env \<noteq> []
            \<and> require w (path_join (dirname w) (env_file env)) = Inr config
            \<and> missing_credentials config = Inr False
            \<and> execa w ''npm'' [''run'', ''build''] = None
            \<and> mkdir w (run_dest w) = None \<and> mkdir w (run_dest w @ ''/static'') = None
            \<and> readdir w (run_dist w) = Inr files \<and> readdir w (run_static w) = Inr staticFiles"
  have t: "(snd (deploy w sched) = RunPending
            \<and> (\<exists>i. in_flight (last (batches (fst (deploy w sched)))) i))
       \<or> (snd (deploy w sched) = Finished
            \<and> (\<exists>pre. trace (fst (deploy w sched))
                   = pre @ finished config (make_timestamp (Date_now w))))"
    using a by (intro deploy_transfer) blast+
  then show "snd (deploy w sched) = Finished \<or> snd (deploy w sched) = RunPending"
    by blast
  {
    assume "snd (deploy w sched) = RunPending"
    with t show "\<exists>i. in_flight (last (batches (fst (deploy w sched)))) i" by auto
  }
  {
    assume "snd (deploy w sched) = Finished"
    with t have "\<exists>pre. trace (fst (deploy w sched))
                   = pre @ finished config (make_timestamp (Date_now w))" by auto
    then show "\<exists>pre. trace (fst (deploy w sched)) = pre @
                  [ConsoleLog (''  '' @ [CHR 0xE2, CHR 0x88, CHR 0x9A] @ '' Finished''),
                   ConsoleLog [],
                   ConsoleLog ''---------------------------------------'',
                   ConsoleLog ''Manual Step Required'',
                   ConsoleLog ''---------------------------------------'',
                   ConsoleLog ''A final step is required to change the storefront checkout to the newly deployed checkout.'',
                   ConsoleLog [],
                   ConsoleLog (''1. Go to https://store-'' @ STOREHASH config
                               @ ''.mybigcommerce.com/manage/settings/checkout''),
                   ConsoleLog (''2. Under '' @ [CHR 0x22] @ ''Custom Checkout Settings'' @ [CHR 0x22]
                               @ '', replace '' @ [CHR 0x22] @ ''Script URL'' @ [CHR 0x22]
                               @ '' with the following:''),
                   ConsoleLog (''   webdav:checkout/'' @ make_timestamp (Date_now w)
                               @ ''/auto-loader-1.96.1.js''),
                   ConsoleLog ''3. Click Save'',
                   ConsoleLog [],
                   ConsoleLog ([CHR 0xF0, CHR 0x9F, CHR 0x8E, CHR 0x89] @ '' Thanks for deploying!'')]"
      by (simp add: finished_def quoted_def)
  }
  {
    assume "covers 0 (length (filter includes_dot files)) a
            \<and> covers 1 (length (filter includes_dot staticFiles)) b"
    with a obtain s' where "deploy w (a @ b) = (emit (finished config (make_timestamp (Date_now w))) s', Finished)"
      using deploy_finishes [of w env config files staticFiles a b] by blast
    then show "snd (deploy w (a @ b)) = Finished" by simp
  }
qed

lemma sandbox_reaches_transfer:
  "argv2 sandbox = Some ''sandbox''"
  "require sandbox (path_join (dirname sandbox) (env_file ''sandbox'')) = Inr sandbox_config"
  "execa sandbox ''npm'' [''run'', ''build''] = None"
  "mkdir sandbox (run_dest sandbox) = None"
  "mkdir sandbox (run_dest sandbox @ ''/static'') = None"
  "readdir sandbox (run_dist sandbox) = Inr [''a.js'', ''b.js'', ''static'']"
  "readdir sandbox (run_static sandbox) = Inr [''c.css'']"
  by (simp_all add: sandbox_def argv2_def run_dist_def run_static_def path_join_def)

theorem failed_upload_does_not_stop_run_witness:
  "argv2 sandbox = Some ''sandbox''
   \<and> require sandbox (path_join (dirname sandbox) (env_file ''sandbox'')) = Inr sandbox_config
   \<and> missing_credentials sandbox_config = Inr False
   \<and> writeFile sandbox ''/content/checkout/2023-11-1422_13_20/a.js'' = Some ''E503''
   \<and> WriteDone ''/content/checkout/2023-11-1422_13_20/a.js'' (Some ''E503'')
        \<in> set (trace (fst (deploy sandbox [(0, 0), (1, 0), (0, 1)])))
   \<and> snd (deploy sandbox [(0, 0), (1, 0), (0, 1)]) = Finished
   \<and> last (trace (fst (deploy sandbox [(0, 0), (1, 0), (0, 1)])))
        = ConsoleLog ([CHR 0xF0, CHR 0x9F, CHR 0x8E, CHR 0x89] @ '' Thanks for deploying!'')
   \<and> snd (deploy sandbox [(0, 1)]) = RunPending
   \<and> in_flight (last (batches (fst (deploy sandbox [(0, 1)])))) 0
   \<and> b_outer (completes sandbox [1, 0] (UploadFiles sandbox ''dist''
         ''/content/checkout/2023-11-1422_13_20'' [''a.js'', ''b.js'', ''static''])) = Fulfilled
   \<and> covers 0 (length (filter includes_dot [''a.js'', ''b.js'', ''static''])) [(0, 0), (0, 1)]
   \<and> covers 1 (length (filter includes_dot [''c.css''])) [(1, 0)]
   \<and> snd (deploy sandbox ([(0, 0), (0, 1)] @ [(1, 0)])) = Finished"
proof -
  have f: "writeFile sandbox ''/content/checkout/2023-11-1422_13_20/a.js'' = Some ''E503''"
    by (simp add: sandbox_def)
  have all: "\<forall>i < length (filter includes_dot [''a.js'', ''b.js'', ''static'']). i \<in> set [1, 0]"
    by (auto simp: includes_dot_def)
  have c0: "covers 0 (length (filter includes_dot [''a.js'', ''b.js'', ''static''])) [(0, 0), (0, 1)]"
    by (simp add: covers_def includes_dot_def upt_rec)
  have c1: "covers 1 (length (filter includes_dot [''c.css''])) [(1, 0)]"
    by (simp add: covers_def includes_dot_def)
  have ne: "''sandbox'' \<noteq> []" by simp
  have fin: "snd (deploy sandbox [(0, 0), (1, 0), (0, 1)]) = Finished"
    by code_simp
  have wd: "WriteDone ''/content/checkout/2023-11-1422_13_20/a.js'' (Some ''E503'')
        \<in> set (trace (fst (deploy sandbox [(0, 0), (1, 0), (0, 1)])))"
    by code_simp
  have pend: "snd (deploy sandbox [(0, 1)]) = RunPending"
    by code_simp
  have fl: "in_flight (last (batches (fst (deploy sandbox [(0, 1)])))) 0"
    by code_simp
  note T = failed_upload_does_not_stop_run
      [where w = sandbox and src = "''dist''" and dest = "''/content/checkout/2023-11-1422_13_20''"
        and fs = "[''a.js'', ''b.js'', ''static'']" and env = "''sandbox''"
        and config = sandbox_config and files = "[''a.js'', ''b.js'', ''static'']"
        and staticFiles = "[''c.css'']" and a = "[(0, 0), (0, 1)]" and b = "[(1, 0)]"]
  from T [where sched = "[(0, 0), (1, 0), (0, 1)]"] fin ne sandbox_reaches_transfer sandbox_credentials
  obtain pre where "trace (fst (deploy sandbox [(0, 0), (1, 0), (0, 1)])) = pre @
      [ConsoleLog (''  '' @ [CHR 0xE2, CHR 0x88, CHR 0x9A] @ '' Finished''),
       ConsoleLog [],
       ConsoleLog ''---------------------------------------'',
       ConsoleLog ''Manual Step Required'',
       ConsoleLog ''---------------------------------------'',
       ConsoleLog ''A final step is required to change the storefront checkout to the newly deployed checkout.'',
       ConsoleLog [],
       ConsoleLog (''1. Go to https://store-'' @ STOREHASH sandbox_config
                   @ ''.mybigcommerce.com/manage/settings/checkout''),
       ConsoleLog (''2. Under '' @ [CHR 0x22] @ ''Custom Checkout Settings'' @ [CHR 0x22]
                   @ '', replace '' @ [CHR 0x22] @ ''Script URL'' @ [CHR 0x22]
                   @ '' with the following:''),
       ConsoleLog (''   webdav:checkout/'' @ make_timestamp (Date_now sandbox)
                   @ ''/auto-loader-1.96.1.js''),
       ConsoleLog ''3. Click Save'',
       ConsoleLog [],
       ConsoleLog ([CHR 0xF0, CHR 0x9F, CHR 0x8E, CHR 0x89] @ '' Thanks for deploying!'')]"
    by blast
  then have l: "last (trace (fst (deploy sandbox [(0, 0), (1, 0), (0, 1)])))
        = ConsoleLog ([CHR 0xF0, CHR 0x9F, CHR 0x8E, CHR 0x89] @ '' Thanks for deploying!'')"
    by simp
  from T [where sched = "[(0, 1)]"] f all c0 c1 ne sandbox_reaches_transfer sandbox_credentials
  have "b_outer (completes sandbox [1, 0] (UploadFiles sandbox ''dist''
         ''/content/checkout/2023-11-1422_13_20'' [''a.js'', ''b.js'', ''static''])) = Fulfilled"
    and "snd (deploy sandbox ([(0, 0), (0, 1)] @ [(1, 0)])) = Finished"
    by blast+
  with f wd fin l pend fl c0 c1 sandbox_reaches_transfer(1,2) sandbox_credentials
  show ?thesis by blast
qed

theorem directories_before_uploads_witness:
  "(\<exists>pre post.
      trace (fst (deploy sandbox [(0, 0), (0, 1), (1, 0)]))
        = pre @ WriteFile ''https://store-abc.mybigcommerce.com/dav''
                  ''/content/checkout/2023-11-1422_13_20/static/c.css'' ''data'' # post
      \<and> Mkdir ''https://store-abc.mybigcommerce.com/dav'' (run_dest sandbox) \<in> set pre
      \<and> Mkdir ''https://store-abc.mybigcommerce.com/dav'' (run_dest sandbox @ ''/static'') \<in> set pre
      \<and> mkdir sandbox (run_dest sandbox) = None)
   \<and> trace (fst (deploy sandbox [(0, 0), (0, 1), (1, 0)]))
        = take 23 (trace (fst (deploy sandbox [(0, 0), (0, 1), (1, 0)])))
          @ Called (run_static sandbox) (run_dest sandbox @ ''/static'')
          # drop 24 (trace (fst (deploy sandbox [(0, 0), (0, 1), (1, 0)])))
   \<and> Called (run_dist sandbox) (run_dest sandbox)
        \<in> set (take 23 (trace (fst (deploy sandbox [(0, 0), (0, 1), (1, 0)]))))
   \<and> Awaited 0 Fulfilled \<in> set (take 23 (trace (fst (deploy sandbox [(0, 0), (0, 1), (1, 0)]))))
   \<and> WriteDone ''/content/checkout/2023-11-1422_13_20/a.js'' (Some ''E503'')
        \<in> set (take 23 (trace (fst (deploy sandbox [(0, 0), (0, 1), (1, 0)]))))
   \<and> WriteDone ''/content/checkout/2023-11-1422_13_20/b.js'' None
        \<notin> set (take 23 (trace (fst (deploy sandbox [(0, 0), (0, 1), (1, 0)]))))
   \<and> WriteDone ''/content/checkout/2023-11-1422_13_20/b.js'' None
        \<in> set (drop 24 (trace (fst (deploy sandbox [(0, 0), (0, 1), (1, 0)]))))
   \<and> snd (deploy sandbox [(0, 0), (0, 1), (1, 0)]) = Finished
   \<and> filter includes_dot (listing sandbox (run_static sandbox)) = [''c.css'']
   \<and> WriteDone (remote_path (run_dest sandbox @ ''/static'') ''c.css'') None
        \<in> set (trace (fst (deploy sandbox [(0, 0), (0, 1), (1, 0)])))"
proof -
  define t where "t = trace (fst (deploy sandbox [(0, 0), (0, 1), (1, 0)]))"
  have "WriteFile ''https://store-abc.mybigcommerce.com/dav''
          ''/content/checkout/2023-11-1422_13_20/static/c.css'' ''data'' \<in> set t"
    unfolding t_def by code_simp
  then obtain pre post where
    s1: "t = pre @ WriteFile ''https://store-abc.mybigcommerce.com/dav''
                 ''/content/checkout/2023-11-1422_13_20/static/c.css'' ''data'' # post"
    by (auto simp: in_set_conv_decomp)
  have n: "23 < length t" "t ! 23 = Called (run_static sandbox) (run_dest sandbox @ ''/static'')"
    unfolding t_def by code_simp+
  have s2: "t = take 23 t @ Called (run_static sandbox) (run_dest sandbox @ ''/static'') # drop 24 t"
    using id_take_nth_drop [OF n(1)] n(2) by simp
  have wd: "WriteDone ''/content/checkout/2023-11-1422_13_20/a.js'' (Some ''E503'') \<in> set (take 23 t)"
    "WriteDone ''/content/checkout/2023-11-1422_13_20/b.js'' None \<notin> set (take 23 t)"
    "WriteDone ''/content/checkout/2023-11-1422_13_20/b.js'' None \<in> set (drop 24 t)"
    unfolding t_def by code_simp+
  note T = directories_before_uploads [of sandbox "[(0, 0), (0, 1), (1, 0)]", folded t_def]
  from T s1 have A: "Mkdir ''https://store-abc.mybigcommerce.com/dav'' (run_dest sandbox) \<in> set pre
      \<and> Mkdir ''https://store-abc.mybigcommerce.com/dav'' (run_dest sandbox @ ''/static'') \<in> set pre
      \<and> mkdir sandbox (run_dest sandbox) = None"
    by blast
  from T s2 have B: "Called (run_dist sandbox) (run_dest sandbox) \<in> set (take 23 t)
      \<and> Awaited 0 Fulfilled \<in> set (take 23 t)"
    by blast
  from s1 A have "\<exists>pre post.
      t = pre @ WriteFile ''https://store-abc.mybigcommerce.com/dav''
                  ''/content/checkout/2023-11-1422_13_20/static/c.css'' ''data'' # post
      \<and> Mkdir ''https://store-abc.mybigcommerce.com/dav'' (run_dest sandbox) \<in> set pre
      \<and> Mkdir ''https://store-abc.mybigcommerce.com/dav'' (run_dest sandbox @ ''/static'') \<in> set pre
      \<and> mkdir sandbox (run_dest sandbox) = None"
    by blast
  moreover have fin: "snd (deploy sandbox [(0, 0), (0, 1), (1, 0)]) = Finished"
    by code_simp
  moreover have ls: "filter includes_dot (listing sandbox (run_static sandbox)) = [''c.css'']"
    by (simp add: listing_def sandbox_def run_static_def path_join_def includes_dot_def)
  moreover have "WriteDone (remote_path (run_dest sandbox @ ''/static'') ''c.css'') None \<in> set t"
    unfolding t_def by code_simp
  ultimately show ?thesis using s2 B wd unfolding t_def by blast
qed

lemma Deploy_Checkout_ended:
  assumes "Deploy_Checkout w config c sched s = (s', r)" and "r \<noteq> Never"
  shows "length (batches s') = length (batches s) + 2"
proof (cases rule: Deploy_Checkout_cases [of w config c sched s])
  case (first_pending ds)
  with assms show ?thesis by simp
next
  case (second_pending ds1 ds2)
  with assms show ?thesis by simp
next
  case (both_fulfilled ds1 ds2)
  with assms(1) show ?thesis by (auto simp: first_call_batch second_call_batch)
qed

text \<open>
  C10. In a run that reaches the third task, the count \<^verbatim>\<open>ctx.fileCount\<close> that the
  second task computed is the number of names with a full stop in the two listings,
  concatenated. Whenever the third task ends, it has made both calls of
  \<^verbatim>\<open>UploadFiles\<close>; and whenever both calls have been made, that count is the number of
  elements that the two calls create together, and the number of times \<^verbatim>\<open>uploader\<close>
  reads a file.
\<close>

theorem fileCount_counts_uploads:
  assumes "Pre_Deploy_Setup w config s1 = (s2, Resolves c)"
    and "Deploy_Checkout w config c sched s2 = (s3, r)"
  shows "fileCount c = length (filter includes_dot (distFiles c @ distStaticFiles c))
       \<and> (r \<noteq> Never \<longrightarrow> length (batches s3) = length (batches s2) + 2)
       \<and> (length (batches s3) = length (batches s2) + 2 \<longrightarrow>
            (\<Sum>b\<leftarrow>batches s3. length (b_uploads b))
              = (\<Sum>b\<leftarrow>batches s2. length (b_uploads b)) + fileCount c
            \<and> length (filter is_ReadFile (trace s3))
              = length (filter is_ReadFile (trace s2)) + fileCount c)"
proof (intro conjI impI)
  from Pre_Deploy_Setup_Resolves [OF assms(1)] obtain files staticFiles where
    "c = run_ctx w files staticFiles" by blast
  then show "fileCount c = length (filter includes_dot (distFiles c @ distStaticFiles c))"
    by (simp add: run_ctx_def)
next
  assume "r \<noteq> Never"
  with assms(2) show "length (batches s3) = length (batches s2) + 2"
    by (rule Deploy_Checkout_ended)
next
  assume both: "length (batches s3) = length (batches s2) + 2"
  from fileCount_both_calls [OF assms both]
  show "(\<Sum>b\<leftarrow>batches s3. length (b_uploads b))
          = (\<Sum>b\<leftarrow>batches s2. length (b_uploads b)) + fileCount c"
    and "length (filter is_ReadFile (trace s3))
          = length (filter is_ReadFile (trace s2)) + fileCount c"
    by simp_all
qed

theorem fileCount_counts_uploads_witness:
  "Pre_Deploy_Setup sandbox sandbox_config initial = (sandbox_setup, Resolves sandbox_ctx)
   \<and> length (batches (fst (Deploy_Checkout sandbox sandbox_config sandbox_ctx
                            [(0, 0), (0, 1), (1, 0)] sandbox_setup)))
       = length (batches sandbox_setup) + 2
   \<and> fileCount sandbox_ctx = 3
   \<and> (\<Sum>b\<leftarrow>batches (fst (Deploy_Checkout sandbox sandbox_config sandbox_ctx
                            [(0, 0), (0, 1), (1, 0)] sandbox_setup)). length (b_uploads b)) = 3"
proof -
  define D where "D = Deploy_Checkout sandbox sandbox_config sandbox_ctx [(0, 0), (0, 1), (1, 0)] sandbox_setup"
  have h1: "Pre_Deploy_Setup sandbox sandbox_config initial = (sandbox_setup, Resolves sandbox_ctx)"
    unfolding sandbox_setup_def sandbox_ctx_def
    by (rule Pre_Deploy_Setup_ok) (rule sandbox_reaches_transfer)+
  have h2: "Deploy_Checkout sandbox sandbox_config sandbox_ctx [(0, 0), (0, 1), (1, 0)] sandbox_setup
            = (fst D, snd D)"
    by (simp add: D_def)
  have h3: "length (batches (fst D)) = length (batches sandbox_setup) + 2"
    unfolding D_def by code_simp
  have n: "fileCount sandbox_ctx = 3" "(\<Sum>b\<leftarrow>batches sandbox_setup. length (b_uploads b)) = 0"
    by (simp_all add: sandbox_ctx_def run_ctx_def includes_dot_def sandbox_setup_def)
  from fileCount_counts_uploads [OF h1 h2] h1 h3 n show ?thesis
    unfolding D_def by simp
qed

section \<open>One failing upload\<close>

text \<open>
  C1, as stated, fails. Two files, the write of the first fails. When that write has
  completed and the other has not, the returned promise has already settled, and it
  has settled as fulfilled; it is still fulfilled, not failed, when both writes have
  completed.
\<close>

theorem batch_waits_and_fails_counterexample:
  "upload_error flaky_io ''dist'' ''/dest'' ''a.js'' = Some ''E503''
   \<and> upload_error flaky_io ''dist'' ''/dest'' ''b.js'' = None
   \<and> b_outer (completes flaky_io [0] (UploadFiles flaky_io ''dist'' ''/dest'' [''a.js'', ''b.js'']))
       = Fulfilled
   \<and> in_flight (completes flaky_io [0] (UploadFiles flaky_io ''dist'' ''/dest'' [''a.js'', ''b.js''])) 1
   \<and> b_outer (completes flaky_io [0, 1] (UploadFiles flaky_io ''dist'' ''/dest'' [''a.js'', ''b.js'']))
       = Fulfilled"
  by (simp add: upload_error_def flaky_io_def local_path_def remote_path_def completes_def
      complete_def in_flight_def UploadFiles_def uploader_def react_def promise_all_def
      finally_catch_def write_callback_def includes_dot_def Let_def)

lemma promise_after:
  assumes "j < length (filter includes_dot files)"
  shows "map u_promise (b_uploads (completes w cs (UploadFiles w src dest files))) ! j
         = u_promise (upload_after w src dest cs j (filter includes_dot files ! j))"
  using uploads_after [OF assms, of w cs src dest] assms
  by (simp add: UploadFiles_uploads)

text \<open>
  C1, amended. When exactly one of the uploads of a call fails, the aggregate of the
  uploads is pending until that failure has happened and from then on is rejected with
  the error of the failed upload, whether or not the other uploads have completed; the
  returned promise settles at that same moment and not before.
\<close>

theorem one_failure_short_circuits:
  fixes w :: "'a io_scheme"
  assumes "i < length (filter includes_dot files)"
    and "upload_error w src dest (filter includes_dot files ! i) = Some e"
    and "\<forall>j < length (filter includes_dot files).
           j \<noteq> i \<longrightarrow> upload_error w src dest (filter includes_dot files ! j) = None"
  shows "b_all (completes w cs (UploadFiles w src dest files))
           = (if has_failed w src (filter includes_dot files ! i) cs i then Rejected e else Pending)
       \<and> (settled (b_outer (completes w cs (UploadFiles w src dest files)))
            \<longleftrightarrow> has_failed w src (filter includes_dot files ! i) cs i)"
proof -
  define fs where "fs = filter includes_dot files"
  define B where "B = completes w cs (UploadFiles w src dest files)"
  define ps where "ps = map u_promise (b_uploads B)"
  have inv: "batch_inv B" unfolding B_def by (intro completes_inv UploadFiles_inv)
  have len: "length ps = length fs"
    by (simp add: ps_def B_def fs_def UploadFiles_uploads)
  have nth: "ps ! j = u_promise (upload_after w src dest cs j (fs ! j))" if "j < length fs" for j
    using that promise_after [of j files w cs src dest] by (simp add: ps_def B_def fs_def)
  have others: "ps ! j \<noteq> Rejected e'" if "j < length fs" "j \<noteq> i" for j e'
    using assms(3) that nth [OF that(1)]
    by (auto simp: fs_def upload_error_def upload_after_def split: sum.splits)
  have failing: "ps ! i = (if has_failed w src (fs ! i) cs i then Rejected e else Pending)"
    using assms(1,2) nth [of i]
    by (auto simp: fs_def upload_error_def upload_after_def has_failed_def split: sum.splits)
  have not_all: "\<not> list_all (\<lambda>p. p = Fulfilled) ps"
  proof
    assume "list_all (\<lambda>p. p = Fulfilled) ps"
    then have "ps ! i = Fulfilled" using assms(1) len by (simp add: list_all_length fs_def)
    with failing show False by (simp split: if_splits)
  qed
  have only: "e' = e \<and> has_failed w src (fs ! i) cs i" if "Rejected e' \<in> set ps" for e'
  proof -
    from that obtain j where j: "j < length ps" "ps ! j = Rejected e'"
      by (auto simp: in_set_conv_nth)
    with others [of j e'] len have "j = i" by auto
    with j(2) failing show ?thesis by (auto split: if_splits)
  qed
  have all: "b_all B = (if has_failed w src (fs ! i) cs i then Rejected e else Pending)"
  proof (cases "b_all B")
    case Pending
    with inv have "first_rejection ps = None" by (simp add: batch_inv_def Let_def ps_def)
    then have "Rejected e \<notin> set ps" by (rule first_rejection_None)
    moreover have "ps ! i \<in> set ps" using assms(1) len by (simp add: fs_def)
    ultimately show ?thesis using failing Pending by auto
  next
    case Fulfilled
    with inv not_all show ?thesis by (simp add: batch_inv_def Let_def ps_def)
  next
    case (Rejected e')
    with inv have "Rejected e' \<in> set ps" by (simp add: batch_inv_def Let_def ps_def)
    from only [OF this] Rejected show ?thesis by simp
  qed
  moreover have "settled (b_outer B) \<longleftrightarrow> b_all B \<noteq> Pending"
    using inv by (simp add: batch_inv_def Let_def settled_def)
  ultimately show ?thesis
    unfolding B_def fs_def by simp
qed

theorem one_failure_short_circuits_witness:
  "0 < length (filter includes_dot [''a.js'', ''b.js''])
   \<and> upload_error flaky_io ''dist'' ''/dest'' (filter includes_dot [''a.js'', ''b.js''] ! 0) = Some ''E503''
   \<and> upload_error flaky_io ''dist'' ''/dest'' (filter includes_dot [''a.js'', ''b.js''] ! 1) = None
   \<and> b_all (completes flaky_io [0] (UploadFiles flaky_io ''dist'' ''/dest'' [''a.js'', ''b.js'']))
       = Rejected ''E503''
   \<and> settled (b_outer (completes flaky_io [0] (UploadFiles flaky_io ''dist'' ''/dest'' [''a.js'', ''b.js''])))
   \<and> b_all (completes flaky_io [1] (UploadFiles flaky_io ''dist'' ''/dest'' [''a.js'', ''b.js'']))
       = Pending"
proof -
  have fs: "filter includes_dot [''a.js'', ''b.js''] = [''a.js'', ''b.js'']"
    by (simp add: includes_dot_def)
  have h1: "0 < length (filter includes_dot [''a.js'', ''b.js''])" unfolding fs by simp
  have h2: "upload_error flaky_io ''dist'' ''/dest'' (filter includes_dot [''a.js'', ''b.js''] ! 0) = Some ''E503''"
    unfolding fs by (simp add: upload_error_def flaky_io_def remote_path_def)
  have b: "upload_error flaky_io ''dist'' ''/dest'' (filter includes_dot [''a.js'', ''b.js''] ! 1) = None"
    unfolding fs by (simp add: upload_error_def flaky_io_def remote_path_def)
  have h3: "\<forall>j < length (filter includes_dot [''a.js'', ''b.js'']).
           j \<noteq> 0 \<longrightarrow> upload_error flaky_io ''dist'' ''/dest'' (filter includes_dot [''a.js'', ''b.js''] ! j) = None"
    using b unfolding fs by (auto simp: less_Suc_eq)
  have f0: "has_failed flaky_io ''dist'' (filter includes_dot [''a.js'', ''b.js''] ! 0) [0] 0"
    unfolding fs by (simp add: has_failed_def flaky_io_def)
  have f1: "\<not> has_failed flaky_io ''dist'' (filter includes_dot [''a.js'', ''b.js''] ! 0) [1] 0"
    unfolding fs by (simp add: has_failed_def flaky_io_def)
  from one_failure_short_circuits [OF h1 h2 h3, of "[0]"]
    one_failure_short_circuits [OF h1 h2 h3, of "[1]"] h1 h2 b f0 f1
  show ?thesis by simp
qed

section \<open>The order of deployment identifiers\<close>

lemma year_down_spec: "DayFromYear (year_down d y) \<le> d"
  by (induction d y rule: year_down.induct) (simp add: year_down.simps)

lemma year_up_spec:
  "DayFromYear y \<le> d \<Longrightarrow>
   DayFromYear (year_up d y) \<le> d \<and> d < DayFromYear (year_up d y + 1)"
proof (induction d y rule: year_up.induct)
  case (1 d y)
  show ?case
  proof (cases "DayFromYear (y + 1) \<le> d")
    case True
    with 1 show ?thesis by (simp add: year_up.simps [of d y])
  next
    case False
    with 1 show ?thesis by (simp add: year_up.simps [of d y])
  qed
qed

lemma YearFromDay_spec:
  "DayFromYear (YearFromDay d) \<le> d \<and> d < DayFromYear (YearFromDay d + 1)"
  unfolding YearFromDay_def by (rule year_up_spec) (rule year_down_spec)

lemma DayFromYear_mono: "a \<le> b \<Longrightarrow> DayFromYear a \<le> DayFromYear b"
proof (induction b rule: int_ge_induct)
  case base
  show ?case by simp
next
  case (step b)
  have "DayFromYear b < DayFromYear (b + 1)" using DayFromYear_less [of "b + 1"] by simp
  with step show ?case by simp
qed

lemma YearFromDay_mono:
  assumes "d1 \<le> d2"
  shows "YearFromDay d1 \<le> YearFromDay d2"
proof (rule ccontr)
  assume "\<not> YearFromDay d1 \<le> YearFromDay d2"
  then have "YearFromDay d2 + 1 \<le> YearFromDay d1" by simp
  then have "DayFromYear (YearFromDay d2 + 1) \<le> DayFromYear (YearFromDay d1)"
    by (rule DayFromYear_mono)
  with YearFromDay_spec [of d1] YearFromDay_spec [of d2] assms show False by linarith
qed

lemma month_of_mono: "0 \<le> l \<Longrightarrow> d1 \<le> d2 \<Longrightarrow> month_of l d1 \<le> month_of l d2"
  unfolding month_of_def by (simp split: if_splits)

lemma date_of_eq: "date_of l d = d - month_start l (month_of l d) + 1"
  unfolding date_of_def month_start_def Let_def month_of_def by simp

lemma month_of_range: "0 \<le> month_of l d \<and> month_of l d \<le> 11"
  unfolding month_of_def by simp

lemma date_of_range:
  assumes "l = 0 \<or> l = 1" "0 \<le> d" "d < 365 + l"
  shows "1 \<le> date_of l d \<and> date_of l d \<le> 31"
  using assms unfolding date_of_def month_of_def Let_def by (auto split: if_splits)

lemma div_mod_split:
  fixes a b c :: int
  assumes "0 < b" "0 \<le> c"
  shows "(a div b) mod c = (a mod (b * c)) div b"
proof -
  have "a mod (b * c) = b * (a div b mod c) + a mod b"
    using assms by (simp add: zmod_zmult2_eq)
  then have "(a mod (b * c)) div b = (b * (a div b mod c) + a mod b) div b" by simp
  also have "\<dots> = a div b mod c"
    using assms by (simp add: div_mult_self2 [of b] div_pos_pos_trivial)
  finally show ?thesis by simp
qed

lemma Day_sec: "Day t = (t div 1000) div 86400"
proof -
  have "t div (1000 * 86400) = (t div 1000) div 86400"
    by (rule zdiv_zmult2_eq) simp
  then show ?thesis by (simp add: Day_def msPerDay_def)
qed

lemma Hour_sec: "HourFromTime t = ((t div 1000) mod 86400) div 3600"
proof -
  define u where "u = t div 1000"
  have "t div (1000 * 3600) = u div 3600"
    unfolding u_def by (rule zdiv_zmult2_eq) simp
  then have a: "t div 3600000 = u div 3600" by simp
  have "(u div 3600) mod 24 = (u mod (3600 * 24)) div 3600"
    by (rule div_mod_split) simp_all
  then have "(u div 3600) mod 24 = (u mod 86400) div 3600" by simp
  then show ?thesis unfolding HourFromTime_def a u_def .
qed

lemma Min_sec: "MinFromTime t = (((t div 1000) mod 86400) div 60) mod 60"
proof -
  define u where "u = t div 1000"
  have "t div (1000 * 60) = u div 60"
    unfolding u_def by (rule zdiv_zmult2_eq) simp
  then have a: "t div 60000 = u div 60" by simp
  have "(u div 60) mod 1440 = (u mod (60 * 1440)) div 60"
    by (rule div_mod_split) simp_all
  then have b: "(u mod 86400) div 60 = (u div 60) mod 1440" by simp
  have c: "(u div 60) mod 1440 mod 60 = (u div 60) mod 60"
    by (rule mod_mod_cancel) simp
  show ?thesis unfolding MinFromTime_def a b c u_def [symmetric] ..
qed

lemma Sec_sec: "SecFromTime t = ((t div 1000) mod 86400) mod 60"
proof -
  have "(t div 1000) mod 86400 mod 60 = (t div 1000) mod 60"
    by (rule mod_mod_cancel) simp
  then show ?thesis unfolding SecFromTime_def by simp
qed

lemma clock_decompose:
  fixes r :: int
  shows "r = 3600 * (r div 3600) + 60 * ((r div 60) mod 60) + r mod 60"
proof -
  have "r = 60 * (r div 60) + r mod 60" by simp
  moreover have "r div 60 = 60 * ((r div 60) div 60) + (r div 60) mod 60" by simp
  moreover have "(r div 60) div 60 = r div 3600"
    using zdiv_zmult2_eq [of 60 r 60] by simp
  ultimately show ?thesis by linarith
qed

lemma clock_lex:
  fixes r1 r2 :: int
  assumes "r1 < r2"
  shows "r1 div 3600 < r2 div 3600
       \<or> (r1 div 3600 = r2 div 3600
           \<and> ((r1 div 60) mod 60 < (r2 div 60) mod 60
               \<or> ((r1 div 60) mod 60 = (r2 div 60) mod 60 \<and> r1 mod 60 < r2 mod 60)))"
proof -
  define h1 m1 s1 where "h1 = r1 div 3600" and "m1 = (r1 div 60) mod 60" and "s1 = r1 mod 60"
  define h2 m2 s2 where "h2 = r2 div 3600" and "m2 = (r2 div 60) mod 60" and "s2 = r2 mod 60"
  have b1: "0 \<le> m1" "m1 < 60" "0 \<le> s1" "s1 < 60"
    by (simp_all add: m1_def s1_def)
  have b2: "0 \<le> m2" "m2 < 60" "0 \<le> s2" "s2 < 60"
    by (simp_all add: m2_def s2_def)
  have e1: "r1 = 3600 * h1 + 60 * m1 + s1"
    unfolding h1_def m1_def s1_def by (rule clock_decompose)
  have e2: "r2 = 3600 * h2 + 60 * m2 + s2"
    unfolding h2_def m2_def s2_def by (rule clock_decompose)
  have "h1 < h2 \<or> (h1 = h2 \<and> (m1 < m2 \<or> (m1 = m2 \<and> s1 < s2)))"
    using assms b1 b2 unfolding e1 e2 by linarith
  then show ?thesis
    unfolding h1_def m1_def s1_def h2_def m2_def s2_def .
qed

lemma clock_range:
  fixes r :: int
  assumes "0 \<le> r" "r < 86400"
  shows "0 \<le> r div 3600 \<and> r div 3600 < 24"
proof -
  define h m s where "h = r div 3600" and "m = (r div 60) mod 60" and "s = r mod 60"
  have b: "0 \<le> m" "m < 60" "0 \<le> s" "s < 60"
    by (simp_all add: m_def s_def)
  have e: "r = 3600 * h + 60 * m + s"
    unfolding h_def m_def s_def by (rule clock_decompose)
  have "0 \<le> h \<and> h < 24" using assms b unfolding e by linarith
  then show ?thesis unfolding h_def .
qed

subsection \<open>Digits and padded numbers\<close>

lemma of_char_digit: "(of_char (digit n) :: nat) = 48 + n mod 10"
proof -
  have "48 + n mod 10 < 256" using mod_less_divisor [of 10 n] by linarith
  then show ?thesis by (simp add: digit_def)
qed

lemma digit_less: "digit a < digit b \<longleftrightarrow> a mod 10 < b mod 10"
  by (simp add: less_char_def of_char_digit)

lemma digit_plain:
  "digit n \<noteq> CHR '':''" "digit n \<noteq> CHR ''T''" "digit n \<noteq> CHR ''.''"
  "\<not> line_terminator (digit n)"
proof -
  have r: "(of_char (digit n) :: nat) \<ge> 48" "(of_char (digit n) :: nat) \<le> 57"
    using mod_less_divisor [of 10 n] by (simp_all add: of_char_digit)
  show "digit n \<noteq> CHR '':''"
  proof
    assume "digit n = CHR '':''"
    then have "(of_char (digit n) :: nat) = of_char CHR '':''" by simp
    with r show False by simp
  qed
  show "digit n \<noteq> CHR ''T''"
  proof
    assume "digit n = CHR ''T''"
    then have "(of_char (digit n) :: nat) = of_char CHR ''T''" by simp
    with r show False by simp
  qed
  show "digit n \<noteq> CHR ''.''"
  proof
    assume "digit n = CHR ''.''"
    then have "(of_char (digit n) :: nat) = of_char CHR ''.''" by simp
    with r show False by simp
  qed
  show "\<not> line_terminator (digit n)"
  proof
    assume "line_terminator (digit n)"
    then have "(of_char (digit n) :: nat) = of_char (CHR 0x0A) \<or> (of_char (digit n) :: nat) = of_char (CHR 0x0D)"
      by (auto simp: line_terminator_def)
    with r show False by simp
  qed
qed

lemma length_pad [simp]: "length (pad k n) = k"
  by (induction k arbitrary: n) simp_all

lemma pad2: "pad 2 n = [digit (n div 10), digit n]"
  by (simp add: numeral_2_eq_2)

lemma pad3: "pad 3 n = [digit (n div 10 div 10), digit (n div 10), digit n]"
  by (simp add: numeral_3_eq_3)

lemma pad4: "pad 4 n = [digit (n div 10 div 10 div 10), digit (n div 10 div 10), digit (n div 10), digit n]"
proof -
  have "(4::nat) = Suc (Suc (Suc (Suc 0)))" by simp
  then show ?thesis by (simp only: pad.simps) simp
qed

subsection \<open>The lexicographic order on strings of equal length\<close>

lemma append_less:
  fixes xs ys us vs :: string
  assumes "length xs = length ys"
  shows "xs @ us < ys @ vs \<longleftrightarrow> xs < ys \<or> (xs = ys \<and> us < vs)"
  using assms by (induction xs ys rule: list_induct2) auto

lemma div10_lex:
  fixes a b :: nat
  assumes "a < b"
  shows "a div 10 < b div 10 \<or> (a div 10 = b div 10 \<and> a mod 10 < b mod 10)"
proof -
  define qa ra qb rb where "qa = a div 10" and "ra = a mod 10" and "qb = b div 10" and "rb = b mod 10"
  have "a = 10 * qa + ra" "b = 10 * qb + rb" "ra < 10" "rb < 10"
    by (simp_all add: qa_def ra_def qb_def rb_def)
  with assms have "qa < qb \<or> (qa = qb \<and> ra < rb)" by linarith
  then show ?thesis unfolding qa_def ra_def qb_def rb_def .
qed

lemma pad_less:
  assumes "a < b" "b < 10 ^ k"
  shows "pad k a < pad k b"
  using assms
proof (induction k arbitrary: a b)
  case 0
  then show ?case by simp
next
  case (Suc k)
  from Suc.prems(2) have small: "b div 10 < 10 ^ k"
    by (intro less_mult_imp_div_less) simp
  from div10_lex [OF Suc.prems(1)] show ?case
  proof
    assume "a div 10 < b div 10"
    then have "pad k (a div 10) < pad k (b div 10)" using small by (rule Suc.IH)
    then show ?thesis by (simp add: append_less)
  next
    assume "a div 10 = b div 10 \<and> a mod 10 < b mod 10"
    then show ?thesis by (simp add: append_less digit_less)
  qed
qed

lemma Z_plain: "\<not> line_terminator CHR ''Z''"
  by (simp add: line_terminator_def)

lemma make_timestamp_stamp:
  assumes "0 \<le> YearFromTime t" "YearFromTime t \<le> 9999"
  shows "make_timestamp t =
     stamp (nat (YearFromTime t)) (nat (MonthFromTime t + 1)) (nat (DateFromTime t))
       (nat (HourFromTime t)) (nat (MinFromTime t)) (nat (SecFromTime t))"
  using assms
  by (simp add: make_timestamp_def toISOString_def iso_year_def stamp_def pad2 pad3 pad4
      replace_all_def digit_plain Z_plain)

lemma field_step:
  assumes "a < b \<or> (a = b \<and> us < vs)" "b < 10 ^ k"
  shows "pad k a @ us < pad k b @ vs"
  using assms pad_less [of a b k] by (auto simp: append_less)

lemma stamp_less:
  assumes "y1 < y2 \<or> (y1 = y2 \<and> (mo1 < mo2 \<or> (mo1 = mo2 \<and> (d1 < d2 \<or> (d1 = d2 \<and>
            (h1 < h2 \<or> (h1 = h2 \<and> (mi1 < mi2 \<or> (mi1 = mi2 \<and> s1 < s2)))))))))"
    and "y2 < 10000" "mo2 < 100" "d2 < 100" "h2 < 100" "mi2 < 100" "s2 < 100"
  shows "stamp y1 mo1 d1 h1 mi1 s1 < stamp y2 mo2 d2 h2 mi2 s2"
proof -
  have s: "s1 < s2 \<Longrightarrow> pad 2 s1 < pad 2 s2"
    using assms(7) by (intro pad_less) simp_all
  have mi: "mi1 < mi2 \<or> (mi1 = mi2 \<and> s1 < s2) \<Longrightarrow>
      pad 2 mi1 @ ''_'' @ pad 2 s1 < pad 2 mi2 @ ''_'' @ pad 2 s2"
    using assms(6) s by (intro field_step) auto
  have h: "h1 < h2 \<or> (h1 = h2 \<and> (mi1 < mi2 \<or> (mi1 = mi2 \<and> s1 < s2))) \<Longrightarrow>
      pad 2 h1 @ ''_'' @ pad 2 mi1 @ ''_'' @ pad 2 s1 < pad 2 h2 @ ''_'' @ pad 2 mi2 @ ''_'' @ pad 2 s2"
    using assms(5) mi by (intro field_step) auto
  have d: "d1 < d2 \<or> (d1 = d2 \<and> (h1 < h2 \<or> (h1 = h2 \<and> (mi1 < mi2 \<or> (mi1 = mi2 \<and> s1 < s2))))) \<Longrightarrow>
      pad 2 d1 @ pad 2 h1 @ ''_'' @ pad 2 mi1 @ ''_'' @ pad 2 s1
      < pad 2 d2 @ pad 2 h2 @ ''_'' @ pad 2 mi2 @ ''_'' @ pad 2 s2"
    using assms(4) h by (intro field_step) auto
  have mo: "mo1 < mo2 \<or> (mo1 = mo2 \<and> (d1 < d2 \<or> (d1 = d2 \<and>
        (h1 < h2 \<or> (h1 = h2 \<and> (mi1 < mi2 \<or> (mi1 = mi2 \<and> s1 < s2))))))) \<Longrightarrow>
      pad 2 mo1 @ ''-'' @ pad 2 d1 @ pad 2 h1 @ ''_'' @ pad 2 mi1 @ ''_'' @ pad 2 s1
      < pad 2 mo2 @ ''-'' @ pad 2 d2 @ pad 2 h2 @ ''_'' @ pad 2 mi2 @ ''_'' @ pad 2 s2"
    using assms(3) d by (intro field_step) auto
  show ?thesis
    unfolding stamp_def using assms(1,2) mo by (intro field_step) auto
qed

lemma day_clock_lex:
  fixes u1 u2 :: int
  assumes "u1 < u2"
  shows "u1 div 86400 < u2 div 86400 \<or> (u1 div 86400 = u2 div 86400 \<and> u1 mod 86400 < u2 mod 86400)"
proof -
  define q1 r1 q2 r2 where "q1 = u1 div 86400" and "r1 = u1 mod 86400"
    and "q2 = u2 div 86400" and "r2 = u2 mod 86400"
  have "u1 = 86400 * q1 + r1" "u2 = 86400 * q2 + r2" "0 \<le> r1" "r1 < 86400" "0 \<le> r2" "r2 < 86400"
    by (simp_all add: q1_def r1_def q2_def r2_def)
  with assms have "q1 < q2 \<or> (q1 = q2 \<and> r1 < r2)" by linarith
  then show ?thesis unfolding q1_def r1_def q2_def r2_def .
qed

lemma leap_cases: "DaysInYear y = 365 \<or> DaysInYear y = 366"
  by (simp add: DaysInYear_def)

lemma DayWithinYear_range:
  "0 \<le> DayWithinYear t \<and> DayWithinYear t < 365 + InLeapYear t"
proof -
  have "DayFromYear (YearFromTime t) \<le> Day t"
    and "Day t < DayFromYear (YearFromTime t) + DaysInYear (YearFromTime t)"
    using YearFromDay_spec [of "Day t"] DayFromYear_step [of "YearFromTime t"]
    by (simp_all add: YearFromTime_def)
  moreover have "DaysInYear (YearFromTime t) = 365 + InLeapYear t"
    using leap_cases [of "YearFromTime t"] by (auto simp: InLeapYear_def)
  ultimately show ?thesis by (simp add: DayWithinYear_def)
qed

lemma InLeapYear_cases: "InLeapYear t = 0 \<or> InLeapYear t = 1"
  by (simp add: InLeapYear_def)

text \<open>The ranges of the six fields.\<close>

lemma field_ranges:
  "0 \<le> MonthFromTime t \<and> MonthFromTime t \<le> 11"
  "1 \<le> DateFromTime t \<and> DateFromTime t \<le> 31"
  "0 \<le> HourFromTime t \<and> HourFromTime t < 24"
  "0 \<le> MinFromTime t \<and> MinFromTime t < 60"
  "0 \<le> SecFromTime t \<and> SecFromTime t < 60"
proof -
  show "0 \<le> MonthFromTime t \<and> MonthFromTime t \<le> 11"
    unfolding MonthFromTime_def by (rule month_of_range)
  show "1 \<le> DateFromTime t \<and> DateFromTime t \<le> 31"
    unfolding DateFromTime_def
    using InLeapYear_cases [of t] DayWithinYear_range [of t] by (intro date_of_range) simp_all
  show "0 \<le> HourFromTime t \<and> HourFromTime t < 24"
    unfolding Hour_sec by (rule clock_range) simp_all
  show "0 \<le> MinFromTime t \<and> MinFromTime t < 60"
    by (simp add: MinFromTime_def)
  show "0 \<le> SecFromTime t \<and> SecFromTime t < 60"
    by (simp add: SecFromTime_def)
qed

text \<open>Times in the same whole second have the same fields.\<close>

lemma same_second:
  assumes "t1 div 1000 = t2 div 1000"
  shows "YearFromTime t1 = YearFromTime t2" "MonthFromTime t1 = MonthFromTime t2"
    "DateFromTime t1 = DateFromTime t2" "HourFromTime t1 = HourFromTime t2"
    "MinFromTime t1 = MinFromTime t2" "SecFromTime t1 = SecFromTime t2"
proof -
  have d: "Day t1 = Day t2" using assms by (simp add: Day_sec)
  then show y: "YearFromTime t1 = YearFromTime t2" by (simp add: YearFromTime_def)
  then have l: "InLeapYear t1 = InLeapYear t2" "DayWithinYear t1 = DayWithinYear t2"
    using d by (simp_all add: InLeapYear_def DayWithinYear_def)
  then show "MonthFromTime t1 = MonthFromTime t2" "DateFromTime t1 = DateFromTime t2"
    by (simp_all add: MonthFromTime_def DateFromTime_def)
  show "HourFromTime t1 = HourFromTime t2" "MinFromTime t1 = MinFromTime t2"
    "SecFromTime t1 = SecFromTime t2"
    using assms by (simp_all add: Hour_sec Min_sec Sec_sec)
qed

text \<open>A later whole second has lexicographically greater fields.\<close>

lemma later_second:
  assumes "t1 div 1000 < t2 div 1000"
  shows "YearFromTime t1 < YearFromTime t2 \<or> (YearFromTime t1 = YearFromTime t2 \<and>
           (MonthFromTime t1 < MonthFromTime t2 \<or> (MonthFromTime t1 = MonthFromTime t2 \<and>
           (DateFromTime t1 < DateFromTime t2 \<or> (DateFromTime t1 = DateFromTime t2 \<and>
           (HourFromTime t1 < HourFromTime t2 \<or> (HourFromTime t1 = HourFromTime t2 \<and>
           (MinFromTime t1 < MinFromTime t2 \<or> (MinFromTime t1 = MinFromTime t2 \<and>
            SecFromTime t1 < SecFromTime t2)))))))))"
proof -
  define u1 u2 where "u1 = t1 div 1000" and "u2 = t2 div 1000"
  from day_clock_lex [of u1 u2] assms
  consider (day) "Day t1 < Day t2" | (clock) "Day t1 = Day t2" "u1 mod 86400 < u2 mod 86400"
    by (auto simp: Day_sec u1_def u2_def)
  then show ?thesis
  proof cases
    case clock
    have y: "YearFromTime t1 = YearFromTime t2" using clock(1) by (simp add: YearFromTime_def)
    then have "MonthFromTime t1 = MonthFromTime t2" "DateFromTime t1 = DateFromTime t2"
      using clock(1)
      by (simp_all add: MonthFromTime_def DateFromTime_def InLeapYear_def DayWithinYear_def)
    moreover have "HourFromTime t1 < HourFromTime t2 \<or> (HourFromTime t1 = HourFromTime t2 \<and>
           (MinFromTime t1 < MinFromTime t2 \<or> (MinFromTime t1 = MinFromTime t2 \<and>
            SecFromTime t1 < SecFromTime t2)))"
      unfolding Hour_sec Min_sec Sec_sec u1_def [symmetric] u2_def [symmetric]
      using clock(2) by (rule clock_lex)
    ultimately show ?thesis using y by simp
  next
    case day
    then have "YearFromTime t1 \<le> YearFromTime t2"
      unfolding YearFromTime_def by (intro YearFromDay_mono) simp
    then consider "YearFromTime t1 < YearFromTime t2" | "YearFromTime t1 = YearFromTime t2"
      by linarith
    then show ?thesis
    proof cases
      case 1
      then show ?thesis by simp
    next
      case 2
      then have l: "InLeapYear t1 = InLeapYear t2" by (simp add: InLeapYear_def)
      have w: "DayWithinYear t1 < DayWithinYear t2"
        using day 2 by (simp add: DayWithinYear_def)
      have "MonthFromTime t1 \<le> MonthFromTime t2"
        unfolding MonthFromTime_def l
        using InLeapYear_cases [of t2] w by (intro month_of_mono) auto
      then consider "MonthFromTime t1 < MonthFromTime t2" | "MonthFromTime t1 = MonthFromTime t2"
        by linarith
      then show ?thesis
      proof cases
        case 1
        then show ?thesis using 2 by simp
      next
        case m: 2
        then have "DateFromTime t1 < DateFromTime t2"
          using w l by (simp add: DateFromTime_def MonthFromTime_def date_of_eq)
        then show ?thesis using 2 m by simp
      qed
    qed
  qed
qed

lemma nat_order:
  fixes a b :: int
  assumes "0 \<le> a" "0 \<le> b"
  shows "nat a < nat b \<longleftrightarrow> a < b" "nat a = nat b \<longleftrightarrow> a = b"
  using assms by auto

lemma YearFromTime_mono: "t1 \<le> t2 \<Longrightarrow> YearFromTime t1 \<le> YearFromTime t2"
  unfolding YearFromTime_def Day_def msPerDay_def
  by (intro YearFromDay_mono zdiv_mono1) simp_all

lemma later_second_stamp:
  assumes "0 \<le> YearFromTime t1" "YearFromTime t2 \<le> 9999" "t1 div 1000 < t2 div 1000"
  shows "stamp (nat (YearFromTime t1)) (nat (MonthFromTime t1 + 1)) (nat (DateFromTime t1))
           (nat (HourFromTime t1)) (nat (MinFromTime t1)) (nat (SecFromTime t1))
       < stamp (nat (YearFromTime t2)) (nat (MonthFromTime t2 + 1)) (nat (DateFromTime t2))
           (nat (HourFromTime t2)) (nat (MinFromTime t2)) (nat (SecFromTime t2))"
proof -
  define Y1 M1 D1 h1 m1 s1 where "Y1 = YearFromTime t1" and "M1 = MonthFromTime t1 + 1"
    and "D1 = DateFromTime t1" and "h1 = HourFromTime t1" and "m1 = MinFromTime t1"
    and "s1 = SecFromTime t1"
  define Y2 M2 D2 h2 m2 s2 where "Y2 = YearFromTime t2" and "M2 = MonthFromTime t2 + 1"
    and "D2 = DateFromTime t2" and "h2 = HourFromTime t2" and "m2 = MinFromTime t2"
    and "s2 = SecFromTime t2"
  have lex: "Y1 < Y2 \<or> (Y1 = Y2 \<and> (M1 < M2 \<or> (M1 = M2 \<and> (D1 < D2 \<or> (D1 = D2 \<and>
            (h1 < h2 \<or> (h1 = h2 \<and> (m1 < m2 \<or> (m1 = m2 \<and> s1 < s2)))))))))"
    using later_second [OF assms(3)]
    unfolding Y1_def M1_def D1_def h1_def m1_def s1_def Y2_def M2_def D2_def h2_def m2_def s2_def
    by auto
  have "Y1 < Y2 \<or> Y1 = Y2" using lex by blast
  then have Y: "0 \<le> Y1" "0 \<le> Y2" "Y2 \<le> 9999"
    using assms(1,2) by (auto simp: Y1_def Y2_def)
  have r1: "0 \<le> M1" "0 \<le> D1" "0 \<le> h1" "0 \<le> m1" "0 \<le> s1"
    using field_ranges [of t1] by (simp_all add: M1_def D1_def h1_def m1_def s1_def)
  have r2: "0 \<le> M2" "M2 \<le> 12" "0 \<le> D2" "D2 \<le> 31" "0 \<le> h2" "h2 < 24" "0 \<le> m2" "m2 < 60"
    "0 \<le> s2" "s2 < 60"
    using field_ranges [of t2] by (simp_all add: M2_def D2_def h2_def m2_def s2_def)
  have "stamp (nat Y1) (nat M1) (nat D1) (nat h1) (nat m1) (nat s1)
        < stamp (nat Y2) (nat M2) (nat D2) (nat h2) (nat m2) (nat s2)"
  proof (rule stamp_less)
    show "nat Y1 < nat Y2 \<or> (nat Y1 = nat Y2 \<and> (nat M1 < nat M2 \<or> (nat M1 = nat M2 \<and>
           (nat D1 < nat D2 \<or> (nat D1 = nat D2 \<and> (nat h1 < nat h2 \<or> (nat h1 = nat h2 \<and>
           (nat m1 < nat m2 \<or> (nat m1 = nat m2 \<and> nat s1 < nat s2)))))))))"
      using lex
      unfolding nat_order [OF Y(1,2)] nat_order [OF r1(1) r2(1)] nat_order [OF r1(2) r2(3)]
        nat_order [OF r1(3) r2(5)] nat_order [OF r1(4) r2(7)] nat_order [OF r1(5) r2(9)] .
    show "nat Y2 < 10000" using Y by simp
    show "nat M2 < 100" using r2 by simp
    show "nat D2 < 100" using r2 by simp
    show "nat h2 < 100" using r2 by simp
    show "nat m2 < 100" using r2 by simp
    show "nat s2 < 100" using r2 by simp
  qed
  then show ?thesis
    unfolding Y1_def M1_def D1_def h1_def m1_def s1_def Y2_def M2_def D2_def h2_def m2_def s2_def .
qed

text \<open>
  C3, amended. For two clock times in the years 0000 to 9999 of which the second is
  later, the second identifier is not smaller than the first in the lexicographic
  order; it is greater exactly when the two times lie in different whole seconds, and
  the two identifiers are the same exactly when the times lie in the same whole second.
\<close>

theorem later_identifier_not_smaller:
  assumes "0 \<le> YearFromTime t1" and "YearFromTime t2 \<le> 9999" and "t1 < t2"
  shows "make_timestamp t1 \<le> make_timestamp t2
       \<and> (make_timestamp t1 < make_timestamp t2 \<longleftrightarrow> t1 div 1000 < t2 div 1000)
       \<and> (make_timestamp t1 = make_timestamp t2 \<longleftrightarrow> t1 div 1000 = t2 div 1000)"
proof -
  have years: "YearFromTime t1 \<le> YearFromTime t2"
    using assms(3) by (intro YearFromTime_mono) simp
  have s1: "make_timestamp t1 =
     stamp (nat (YearFromTime t1)) (nat (MonthFromTime t1 + 1)) (nat (DateFromTime t1))
       (nat (HourFromTime t1)) (nat (MinFromTime t1)) (nat (SecFromTime t1))"
    using assms(1,2) years by (intro make_timestamp_stamp) simp_all
  have s2: "make_timestamp t2 =
     stamp (nat (YearFromTime t2)) (nat (MonthFromTime t2 + 1)) (nat (DateFromTime t2))
       (nat (HourFromTime t2)) (nat (MinFromTime t2)) (nat (SecFromTime t2))"
    using assms(1,2) years by (intro make_timestamp_stamp) simp_all
  have "t1 div 1000 \<le> t2 div 1000"
    using assms(3) by (intro zdiv_mono1) simp_all
  then consider (same) "t1 div 1000 = t2 div 1000" | (later) "t1 div 1000 < t2 div 1000"
    by linarith
  then show ?thesis
  proof cases
    case same
    from same_second [OF same] have "make_timestamp t1 = make_timestamp t2"
      unfolding s1 s2 by simp
    with same show ?thesis by simp
  next
    case later
    have "make_timestamp t1 < make_timestamp t2"
      unfolding s1 s2 using assms(1,2) later by (rule later_second_stamp)
    with later show ?thesis by auto
  qed
qed

lemma pad6:
  "pad 6 n = [digit (n div 10 div 10 div 10 div 10 div 10), digit (n div 10 div 10 div 10 div 10),
              digit (n div 10 div 10 div 10), digit (n div 10 div 10), digit (n div 10), digit n]"
proof -
  have "(6::nat) = Suc (Suc (Suc (Suc (Suc (Suc 0)))))" by simp
  then show ?thesis by (simp only: pad.simps) simp
qed

lemma plus_less_digit: "CHR ''+'' < digit n"
  by (simp add: less_char_def of_char_digit)

lemma year_overflow_smaller:
  assumes "0 \<le> YearFromTime t1" "YearFromTime t1 \<le> 9999" "9999 < YearFromTime t2"
  shows "make_timestamp t2 < make_timestamp t1"
proof -
  obtain r1 where r1: "make_timestamp t1 = digit (nat (YearFromTime t1) div 10 div 10 div 10) # r1"
    using make_timestamp_stamp [OF assms(1,2)] by (simp add: stamp_def pad4)
  obtain r2 where r2: "make_timestamp t2 = CHR ''+'' # r2"
    using assms(3)
    by (simp add: make_timestamp_def toISOString_def iso_year_def pad2 pad3 pad6
        replace_all_def digit_plain Z_plain)
  show ?thesis unfolding r1 r2 by (simp add: plus_less_digit)
qed

text \<open>
  C3, as stated, fails: two invocations in the same second, the second later than the
  first, get the same identifier. (And from the year 9999 to the year 10000, where
  the year gets a sign and six digits, the later identifier is the smaller one.)
\<close>

theorem later_identifier_greater_counterexample:
  "(1700000000123 :: int) < 1700000000456
   \<and> make_timestamp 1700000000123 = ''2023-11-1422_13_20''
   \<and> make_timestamp 1700000000456 = ''2023-11-1422_13_20''
   \<and> \<not> make_timestamp 1700000000123 < make_timestamp 1700000000456
   \<and> (253402300799999 :: int) < 253402300800000
   \<and> make_timestamp 253402300800000 < make_timestamp 253402300799999"
proof -
  have a: "make_timestamp 1700000000123 = ''2023-11-1422_13_20''" by code_simp
  have b: "make_timestamp 1700000000456 = ''2023-11-1422_13_20''" by code_simp
  have c: "YearFromTime 253402300799999 = 9999" by code_simp
  have d: "YearFromTime 253402300800000 = 10000" by code_simp
  have "make_timestamp 253402300800000 < make_timestamp 253402300799999"
    by (rule year_overflow_smaller) (simp_all add: c d)
  then show ?thesis unfolding a b by simp
qed

theorem later_identifier_not_smaller_witness:
  "0 \<le> YearFromTime 1700000000123 \<and> YearFromTime 1700000060000 \<le> 9999
   \<and> (1700000000123 :: int) < 1700000060000
   \<and> make_timestamp 1700000000123 < make_timestamp 1700000060000
   \<and> make_timestamp 1700000000123 = make_timestamp 1700000000456"
proof -
  have y1: "YearFromTime 1700000000123 = 2023" by code_simp
  have y2: "YearFromTime 1700000060000 = 2023" by code_simp
  have y3: "YearFromTime 1700000000456 = 2023" by code_simp
  have h1: "0 \<le> YearFromTime 1700000000123" by (simp add: y1)
  have h2: "YearFromTime 1700000060000 \<le> 9999" by (simp add: y2)
  have h2': "YearFromTime 1700000000456 \<le> 9999" by (simp add: y3)
  have h3: "(1700000000123 :: int) < 1700000060000" by simp
  have h3': "(1700000000123 :: int) < 1700000000456" by simp
  from later_identifier_not_smaller [OF h1 h2 h3] later_identifier_not_smaller [OF h1 h2' h3']
    h1 h2 h3
  show ?thesis by simp
qed

end
